theory Spec2Isabelle
  imports Main "HOL-Library.Sublist"
begin

section \<open>Platform values\<close>

text \<open>
  The values that \<^verbatim>\<open>JSON.parse\<close> and \<^verbatim>\<open>Response.json()\<close> produce. Numbers are
  restricted to integers; an object is the list of its own properties in insertion order.
  A property that is missing reads as \<^verbatim>\<open>undefined\<close>, which is \<open>None\<close> below.
\<close>

datatype json =
    JNull
  | JBool bool
  | JNum int
  | JStr string
  | JArr "json list"
  | JObj "(string \<times> json) list"

text \<open>What a rejected promise carries. \<open>TypeError\<close> is what \<^verbatim>\<open>fetch\<close> rejects with on a
  network failure (and what reading a property of \<^verbatim>\<open>null\<close> and a string conversion that
  fails throw), \<open>SyntaxError\<close> what
  \<^verbatim>\<open>Response.json()\<close> and \<^verbatim>\<open>JSON.parse\<close> throw on a text that is not JSON, \<open>Error\<close> any
  other exception of the surrounding framework; \<open>DriveApiError\<close> is the class of
  \<^verbatim>\<open>drive-client.ts\<close> (status, message).\<close>

datatype exn =
    DriveApiError nat string
  | TypeError
  | SyntaxError
  | Error

record 'a response =
  status :: nat
  statusText :: string
  bodyText :: string
  bodyJson :: "'a option"

text \<open>\<^verbatim>\<open>Response.ok\<close>: the status is in the range 200 to 299.\<close>

definition ok :: "'a response \<Rightarrow> bool" where
  "ok r \<longleftrightarrow> 200 \<le> status r \<and> status r \<le> 299"

text \<open>One \<^verbatim>\<open>fetch\<close>, as the caller sees it: the promise rejects or resolves to a response,
  after some milliseconds have passed on the clock that \<^verbatim>\<open>Date.now()\<close> reads.\<close>

datatype 'a outcome =
    Rejected nat
  | Responded nat "'a response"

text \<open>\<^verbatim>\<open>String.prototype.includes\<close>.\<close>

fun str_includes :: "string \<Rightarrow> string \<Rightarrow> bool" where
  "str_includes [] t = (t = [])"
| "str_includes (c # cs) t = (prefix t (c # cs) \<or> str_includes cs t)"

section \<open>The Drive client: \<^verbatim>\<open>src/drive-client.ts\<close>\<close>

record DriveClientConfig =
  accessToken :: string
  refreshToken :: string
  clientId :: string
  clientSecret :: string
  expiresAt :: "int option"

record DriveClient =
  config :: DriveClientConfig
  currentAccessToken :: string
  tokenExpiry :: int

definition newDriveClient :: "DriveClientConfig \<Rightarrow> DriveClient" where
  "newDriveClient cfg =
     \<lparr>config = cfg,
      currentAccessToken = accessToken cfg,
      tokenExpiry = (case expiresAt cfg of None \<Rightarrow> 0 | Some t \<Rightarrow> t)\<rparr>"

text \<open>The body of a 2xx answer of the token endpoint, at the type the source casts it to:
  \<^verbatim>\<open>{ access_token: string; expires_in: number; refresh_token?: string }\<close>.\<close>

record token_data =
  access_token :: string
  expires_in :: int
  refresh_token :: "string option"

text \<open>\<^verbatim>\<open>RequestInit\<close>, with the three fields the client sets.\<close>

record RequestInit =
  init_method :: "string option"
  init_headers :: "(string \<times> string) list"
  init_body :: "string option"

text \<open>The calls that leave the process, in the order they are made: a form post to
  \<^verbatim>\<open>TOKEN_URL\<close> (a refresh exchange) or a request to the remote API.\<close>

datatype event =
    TokenFetch "(string \<times> string) list"
  | ApiFetch string RequestInit

record world =
  clock :: int
  calls :: "event list"

text \<open>The two remote parties. Each answers a call from the calls made so far and the call
  itself, so that a second call may be answered differently from the first.\<close>

record env =
  tokenEndpoint :: "event list \<Rightarrow> (string \<times> string) list \<Rightarrow> token_data outcome"
  remoteApi :: "event list \<Rightarrow> string \<Rightarrow> RequestInit \<Rightarrow> json outcome"

definition tick :: "nat \<Rightarrow> event \<Rightarrow> world \<Rightarrow> world" where
  "tick dt e w = w\<lparr>clock := clock w + int dt, calls := calls w @ [e]\<rparr>"

definition isTokenFetch :: "event \<Rightarrow> bool" where
  "isTokenFetch e = (case e of TokenFetch _ \<Rightarrow> True | ApiFetch _ _ \<Rightarrow> False)"

definition refreshExchanges :: "world \<Rightarrow> nat" where
  "refreshExchanges w = length (filter isTokenFetch (calls w))"

definition remoteCalls :: "world \<Rightarrow> nat" where
  "remoteCalls w = length (filter (\<lambda>e. \<not> isTokenFetch e) (calls w))"

definition refreshForm :: "DriveClient \<Rightarrow> (string \<times> string) list" where
  "refreshForm c =
     [(''client_id'', clientId (config c)),
      (''client_secret'', clientSecret (config c)),
      (''refresh_token'', refreshToken (config c)),
      (''grant_type'', ''refresh_token'')]"

text \<open>
  \<^verbatim>\<open>getAccessToken(forceRefresh)\<close>. The object's fields are the \<open>DriveClient\<close> passed in and
  returned; a string is truthy when it is not empty. \<^verbatim>\<open>Date.now()\<close> is read once before the
  exchange (line 34) and once after the body has been read (line 80).
\<close>

definition getAccessToken ::
  "env \<Rightarrow> bool \<Rightarrow> DriveClient \<Rightarrow> world \<Rightarrow> (exn + string) \<times> DriveClient \<times> world" where
  "getAccessToken E forceRefresh c w =
     (if \<not> forceRefresh \<and> currentAccessToken c \<noteq> [] \<and> clock w < tokenExpiry c
      then (Inr (currentAccessToken c), c, w)
      else if refreshToken (config c) = []
      then (Inl (DriveApiError 401 ''Access token expired and no refresh token available''), c, w)
      else
        (case tokenEndpoint E (calls w) (refreshForm c) of
           Rejected dt \<Rightarrow> (Inl TypeError, c, tick dt (TokenFetch (refreshForm c)) w)
         | Responded dt res \<Rightarrow>
             (let w' = tick dt (TokenFetch (refreshForm c)) w in
              if \<not> ok res then
                (if status res = 400 \<and> str_includes (bodyText res) ''invalid_grant''
                 then (Inl (DriveApiError 401
                         (''Google refresh token is invalid or revoked ('' @ bodyText res @ '')'')),
                       c, w')
                 else (Inl (DriveApiError (status res)
                         (''Token refresh failed: '' @ bodyText res)), c, w'))
              else
                (case bodyJson res of
                   None \<Rightarrow> (Inl SyntaxError, c, w')
                 | Some data \<Rightarrow>
                     (let c1 = c\<lparr>currentAccessToken := access_token data\<rparr>;
                          c2 = (case refresh_token data of
                                  None \<Rightarrow> c1
                                | Some r \<Rightarrow>
                                    if r \<noteq> [] then c1\<lparr>config := (config c1)\<lparr>refreshToken := r\<rparr>\<rparr>
                                    else c1);
                          c3 = c2\<lparr>tokenExpiry := clock w' + (expires_in data - 60) * 1000\<rparr>
                      in (Inr (currentAccessToken c3), c3, w'))))))"


text \<open>\<^verbatim>\<open>Array.prototype.join\<close> on an array of strings.\<close>

fun join :: "string \<Rightarrow> string list \<Rightarrow> string" where
  "join sep [] = []"
| "join sep [x] = x"
| "join sep (x # y # ys) = x @ sep @ join sep (y # ys)"

text \<open>The decimal numeral of an integer, which is what \<^verbatim>\<open>String(n)\<close> and
  \<^verbatim>\<open>JSON.stringify(n)\<close> give for an integer \<open>n\<close> of magnitude below \<open>10^21\<close>.\<close>

fun digits10 :: "nat \<Rightarrow> string" where
  "digits10 n =
     (if n < 10 then [char_of (48 + n)]
      else digits10 (n div 10) @ [char_of (48 + n mod 10)])"

declare digits10.simps [simp del]

definition showInt :: "int \<Rightarrow> string" where
  "showInt i = (if i < 0 then CHR ''-'' # digits10 (nat (- i)) else digits10 (nat i))"

text \<open>
  The string conversion (\<^verbatim>\<open>ToString\<close>) that the \<^verbatim>\<open>Error\<close> constructor applies to its
  argument, on the values that \<^verbatim>\<open>JSON.parse\<close> produces; \<open>None\<close> is the \<^verbatim>\<open>TypeError\<close> it
  throws. A string, a number, a boolean and \<^verbatim>\<open>null\<close> always convert. An object converts
  through the \<^verbatim>\<open>toString\<close> it inherits, to \<^verbatim>\<open>[object Object]\<close>; an object that has a
  property \<^verbatim>\<open>toString\<close> of its own hides the inherited one by a value that cannot be called,
  its \<^verbatim>\<open>valueOf\<close> gives no primitive either, and the conversion throws. An array is its
  elements joined by commas, with \<^verbatim>\<open>null\<close> elements left empty, and throws when the
  conversion of an element does.
\<close>

fun js_toString :: "json \<Rightarrow> string option" where
  "js_toString JNull = Some ''null''"
| "js_toString (JBool b) = Some (if b then ''true'' else ''false'')"
| "js_toString (JNum n) = Some (showInt n)"
| "js_toString (JStr s) = Some s"
| "js_toString (JArr xs) =
     map_option (join '','')
       (those (map (\<lambda>x. if x = JNull then Some [] else js_toString x) xs))"
| "js_toString (JObj kvs) =
     (if ''toString'' \<in> fst ` set kvs then None else Some ''[object Object]'')"

text \<open>\<^verbatim>\<open>a?.k\<close> for the keys \<^verbatim>\<open>error\<close> and \<^verbatim>\<open>message\<close>: \<^verbatim>\<open>undefined\<close> when \<open>a\<close> is
  \<^verbatim>\<open>undefined\<close> or \<^verbatim>\<open>null\<close>, the property when \<open>a\<close> is an object that has it, and
  \<^verbatim>\<open>undefined\<close> on every other value (no number, boolean, string or array has a property
  of either name).\<close>

fun optChain :: "json option \<Rightarrow> string \<Rightarrow> json option" where
  "optChain None k = None"
| "optChain (Some (JObj kvs)) k = map_of kvs k"
| "optChain (Some v) k = None"

text \<open>Lines 104 to 110: the value of \<^verbatim>\<open>message\<close>, which is
  \<^verbatim>\<open>data?.error?.message ?? res.statusText\<close> inside the \<^verbatim>\<open>try\<close> and the status text when
  \<^verbatim>\<open>res.json()\<close> throws. It is declared a string, but it is whatever value the body
  carries.\<close>

definition errorMessage :: "json response \<Rightarrow> json" where
  "errorMessage res =
     (case bodyJson res of
        None \<Rightarrow> JStr (statusText res)
      | Some data \<Rightarrow>
          (case optChain (optChain (Some data) ''error'') ''message'' of
             None \<Rightarrow> JStr (statusText res)
           | Some JNull \<Rightarrow> JStr (statusText res)
           | Some v \<Rightarrow> v))"

text \<open>\<^verbatim>\<open>new DriveApiError(status, message)\<close> on such a value: the constructor passes the
  message to \<^verbatim>\<open>Error\<close>, which converts it to a string or throws \<^verbatim>\<open>TypeError\<close>. The result
  is what the \<^verbatim>\<open>throw\<close> of line 111 throws; that line is outside the \<^verbatim>\<open>try\<close>.\<close>

definition newDriveApiError :: "nat \<Rightarrow> json \<Rightarrow> exn" where
  "newDriveApiError st message =
     (case js_toString message of
        None \<Rightarrow> TypeError
      | Some m \<Rightarrow> DriveApiError st m)"

text \<open>Lines 103 to 114: a response that is not ok is thrown, a response that is ok is
  returned.\<close>

definition settle :: "json response \<Rightarrow> exn + json response" where
  "settle res =
     (if \<not> ok res then Inl (newDriveApiError (status res) (errorMessage res)) else Inr res)"

text \<open>Header names compare without regard to ASCII case. \<^verbatim>\<open>Headers.set\<close> overwrites the
  first header of that name and removes the others, or appends a new header.\<close>

definition lower_char :: "char \<Rightarrow> char" where
  "lower_char ch =
     (if 65 \<le> (of_char ch :: nat) \<and> (of_char ch :: nat) \<le> 90
      then char_of ((of_char ch :: nat) + 32) else ch)"

fun headers_set :: "string \<Rightarrow> string \<Rightarrow> (string \<times> string) list \<Rightarrow> (string \<times> string) list" where
  "headers_set n v [] = [(n, v)]"
| "headers_set n v ((k, x) # hs) =
     (if map lower_char k = map lower_char n
      then (k, v) # filter (\<lambda>h. map lower_char (fst h) \<noteq> map lower_char n) hs
      else (k, x) # headers_set n v hs)"

definition withBearer :: "RequestInit \<Rightarrow> string \<Rightarrow> RequestInit" where
  "withBearer options token =
     options\<lparr>init_headers :=
       headers_set ''Authorization'' (''Bearer '' @ token) (init_headers options)\<rparr>"

text \<open>The closure \<^verbatim>\<open>makeRequest\<close> of \<^verbatim>\<open>request\<close>.\<close>

definition makeRequest ::
  "env \<Rightarrow> string \<Rightarrow> RequestInit \<Rightarrow> string \<Rightarrow> world \<Rightarrow> (exn + json response) \<times> world" where
  "makeRequest E url options token w =
     (case remoteApi E (calls w) url (withBearer options token) of
        Rejected dt \<Rightarrow> (Inl TypeError, tick dt (ApiFetch url (withBearer options token)) w)
      | Responded dt res \<Rightarrow> (Inr res, tick dt (ApiFetch url (withBearer options token)) w))"

text \<open>\<^verbatim>\<open>request(url, options)\<close>, the executor of the specification.\<close>

definition request ::
  "env \<Rightarrow> string \<Rightarrow> RequestInit \<Rightarrow> DriveClient \<Rightarrow> world
     \<Rightarrow> (exn + json response) \<times> DriveClient \<times> world" where
  "request E url options c w =
     (case getAccessToken E False c w of
        (Inl e, c1, w1) \<Rightarrow> (Inl e, c1, w1)
      | (Inr token, c1, w1) \<Rightarrow>
          (case makeRequest E url options token w1 of
             (Inl e, w2) \<Rightarrow> (Inl e, c1, w2)
           | (Inr res, w2) \<Rightarrow>
               if status res = 401 then
                 (case getAccessToken E True c1 w2 of
                    (Inl e, c2, w3) \<Rightarrow> (Inl e, c2, w3)
                  | (Inr token', c2, w3) \<Rightarrow>
                      (case makeRequest E url options token' w3 of
                         (Inl e, w4) \<Rightarrow> (Inl e, c2, w4)
                       | (Inr res', w4) \<Rightarrow> (settle res', c2, w4)))
               else (settle res, c1, w2)))"


subsection \<open>Multipart bodies\<close>

definition CRLF :: string where
  "CRLF = [CHR 0x0D, CHR 0x0A]"

definition hexDigit :: "nat \<Rightarrow> char" where
  "hexDigit n = (if n < 10 then char_of (48 + n) else char_of (87 + n))"

text \<open>\<^verbatim>\<open>JSON.stringify\<close> on a string: the quotation mark, the backslash and the control
  characters are escaped, every other character stands for itself.\<close>

definition escapeChar :: "char \<Rightarrow> string" where
  "escapeChar ch =
     (let n = (of_char ch :: nat) in
      if n = 8 then [CHR 0x5C, CHR ''b'']
      else if n = 9 then [CHR 0x5C, CHR ''t'']
      else if n = 10 then [CHR 0x5C, CHR ''n'']
      else if n = 12 then [CHR 0x5C, CHR ''f'']
      else if n = 13 then [CHR 0x5C, CHR ''r'']
      else if n = 34 then [CHR 0x5C, CHR 0x22]
      else if n = 92 then [CHR 0x5C, CHR 0x5C]
      else if n < 32 then [CHR 0x5C, CHR ''u'', CHR ''0'', CHR ''0''] @ [hexDigit (n div 16), hexDigit (n mod 16)]
      else [ch])"

definition quoteJSON :: "string \<Rightarrow> string" where
  "quoteJSON s = CHR 0x22 # concat (map escapeChar s) @ [CHR 0x22]"

text \<open>\<^verbatim>\<open>JSON.stringify(value)\<close> with no indentation argument.\<close>

fun JSON_stringify :: "json \<Rightarrow> string" where
  "JSON_stringify JNull = ''null''"
| "JSON_stringify (JBool b) = (if b then ''true'' else ''false'')"
| "JSON_stringify (JNum n) = showInt n"
| "JSON_stringify (JStr s) = quoteJSON s"
| "JSON_stringify (JArr xs) = ''['' @ join '','' (map JSON_stringify xs) @ '']''"
| "JSON_stringify (JObj kvs) =
     ''{'' @ join '','' (map (\<lambda>kv. quoteJSON (fst kv) @ '':'' @ JSON_stringify (snd kv)) kvs) @ ''}''"

record multipart =
  body :: string
  contentType :: string

definition buildMultipart :: "json \<Rightarrow> string \<Rightarrow> string \<Rightarrow> multipart" where
  "buildMultipart metadata content ctype =
     (let boundary = ''-----gdrive-mcp-boundary'' in
      \<lparr>body = join CRLF
         [''--'' @ boundary,
          ''Content-Type: application/json; charset=UTF-8'',
          [],
          JSON_stringify metadata,
          ''--'' @ boundary,
          ''Content-Type: '' @ ctype,
          [],
          content,
          ''--'' @ boundary @ ''--''],
       contentType = ''multipart/related; boundary='' @ boundary\<rparr>)"


subsection \<open>Reading a multipart body back\<close>

text \<open>
  The repository only writes multipart bodies; the round trip of the specification needs a
  reader. \<open>decodeMultipart_spec\<close> is that reader, written from the specification's words
  and the multipart format: the boundary is the one declared in the content-type header, a
  part starts after the line \<^verbatim>\<open>--boundary\<close> and ends before the next CRLF followed by
  \<^verbatim>\<open>--boundary\<close>, the last delimiter is followed by \<^verbatim>\<open>--\<close>, and inside a part an empty
  line separates the header from the content. It returns header and content of both parts.
\<close>

fun breakOn :: "string \<Rightarrow> string \<Rightarrow> (string \<times> string) option" where
  "breakOn d [] = (if d = [] then Some ([], []) else None)"
| "breakOn d (c # cs) =
     (if prefix d (c # cs) then Some ([], drop (length d) (c # cs))
      else map_option (\<lambda>p. (c # fst p, snd p)) (breakOn d cs))"

definition declaredBoundary :: "string \<Rightarrow> string option" where
  "declaredBoundary ct = map_option snd (breakOn ''boundary='' ct)"

definition decodeMultipart_spec ::
  "multipart \<Rightarrow> ((string \<times> string) \<times> (string \<times> string)) option" where
  "decodeMultipart_spec mp =
     (case declaredBoundary (contentType mp) of
        None \<Rightarrow> None
      | Some bd \<Rightarrow>
          (let dash = ''--'' @ bd; delim = CRLF @ dash in
           if \<not> prefix (dash @ CRLF) (body mp) then None
           else
             (case breakOn delim (drop (length (dash @ CRLF)) (body mp)) of
                None \<Rightarrow> None
              | Some (part1, rest1) \<Rightarrow>
                  if \<not> prefix CRLF rest1 then None
                  else
                    (case breakOn delim (drop (length CRLF) rest1) of
                       None \<Rightarrow> None
                     | Some (part2, rest2) \<Rightarrow>
                         if \<not> prefix ''--'' rest2 then None
                         else
                           (case breakOn (CRLF @ CRLF) part1 of
                              None \<Rightarrow> None
                            | Some p1 \<Rightarrow>
                                (case breakOn (CRLF @ CRLF) part2 of
                                   None \<Rightarrow> None
                                 | Some p2 \<Rightarrow> Some (p1, p2)))))))"

subsection \<open>Reading the JSON text back\<close>

text \<open>
  The first part holds the metadata as JSON text, so the round trip also needs a reader of
  JSON, again written for the specification: \<open>JSON_parse_spec\<close> reads the grammar that
  \<open>JSON_stringify\<close> writes (no white space, integers, the escapes of \<open>escapeChar\<close> and the
  other two-character escapes of JSON). \<open>readValue\<close>, \<open>readElems\<close> and \<open>readMembers\<close>
  descend into arrays and objects on a counter that \<open>JSON_parse_spec\<close> starts above the
  length of the text, which is more than any text needs.
\<close>

definition isDigit :: "char \<Rightarrow> bool" where
  "isDigit ch \<longleftrightarrow> 48 \<le> (of_char ch :: nat) \<and> (of_char ch :: nat) \<le> 57"

definition readNat :: "string \<Rightarrow> (nat \<times> string) option" where
  "readNat s =
     (if takeWhile isDigit s = [] then None
      else Some (foldl (\<lambda>a ch. 10 * a + ((of_char ch :: nat) - 48)) 0 (takeWhile isDigit s),
                 dropWhile isDigit s))"

definition readNumber :: "string \<Rightarrow> (json \<times> string) option" where
  "readNumber s =
     (case s of
        [] \<Rightarrow> None
      | c # r \<Rightarrow>
          if c = CHR ''-'' then map_option (\<lambda>p. (JNum (- int (fst p)), snd p)) (readNat r)
          else map_option (\<lambda>p. (JNum (int (fst p)), snd p)) (readNat s))"

definition hexVal :: "char \<Rightarrow> nat option" where
  "hexVal ch =
     (let n = (of_char ch :: nat) in
      if 48 \<le> n \<and> n \<le> 57 then Some (n - 48)
      else if 97 \<le> n \<and> n \<le> 102 then Some (n - 87)
      else if 65 \<le> n \<and> n \<le> 70 then Some (n - 55)
      else None)"

definition unescape :: "char \<Rightarrow> char option" where
  "unescape e =
     (if e = CHR ''b'' then Some (CHR 0x08)
      else if e = CHR ''t'' then Some (CHR 0x09)
      else if e = CHR ''n'' then Some (CHR 0x0A)
      else if e = CHR ''f'' then Some (CHR 0x0C)
      else if e = CHR ''r'' then Some (CHR 0x0D)
      else if e = CHR 0x22 then Some (CHR 0x22)
      else if e = CHR 0x5C then Some (CHR 0x5C)
      else if e = CHR ''/'' then Some (CHR ''/'')
      else None)"

fun readString :: "string \<Rightarrow> (string \<times> string) option" where
  "readString [] = None"
| "readString (c # r) =
     (if c = CHR 0x22 then Some ([], r)
      else if c = CHR 0x5C then
        (case r of
           [] \<Rightarrow> None
         | e # r1 \<Rightarrow>
             if e = CHR ''u'' then
               (case r1 of
                  a # b # x # y # r2 \<Rightarrow>
                    (case (hexVal a, hexVal b, hexVal x, hexVal y) of
                       (Some p, Some q, Some u, Some v) \<Rightarrow>
                         if p = 0 \<and> q = 0
                         then map_option (\<lambda>p. (char_of (16 * u + v) # fst p, snd p)) (readString r2)
                         else None
                     | _ \<Rightarrow> None)
                | _ \<Rightarrow> None)
             else
               (case unescape e of
                  None \<Rightarrow> None
                | Some ch \<Rightarrow> map_option (\<lambda>p. (ch # fst p, snd p)) (readString r1)))
      else map_option (\<lambda>p. (c # fst p, snd p)) (readString r))"

fun readValue :: "nat \<Rightarrow> string \<Rightarrow> (json \<times> string) option"
  and readElems :: "nat \<Rightarrow> string \<Rightarrow> (json list \<times> string) option"
  and readMembers :: "nat \<Rightarrow> string \<Rightarrow> ((string \<times> json) list \<times> string) option" where
  "readValue 0 s = None"
| "readValue (Suc f) s =
     (case s of
        [] \<Rightarrow> None
      | c # r \<Rightarrow>
          if c = CHR ''n'' then (if prefix ''ull'' r then Some (JNull, drop 3 r) else None)
          else if c = CHR ''t'' then (if prefix ''rue'' r then Some (JBool True, drop 3 r) else None)
          else if c = CHR ''f'' then (if prefix ''alse'' r then Some (JBool False, drop 4 r) else None)
          else if c = CHR 0x22 then map_option (\<lambda>p. (JStr (fst p), snd p)) (readString r)
          else if c = CHR ''['' then
            (if prefix '']'' r then Some (JArr [], drop 1 r)
             else map_option (\<lambda>p. (JArr (fst p), snd p)) (readElems f r))
          else if c = CHR ''{'' then
            (if prefix ''}'' r then Some (JObj [], drop 1 r)
             else map_option (\<lambda>p. (JObj (fst p), snd p)) (readMembers f r))
          else readNumber s)"
| "readElems 0 s = None"
| "readElems (Suc f) s =
     (case readValue f s of
        None \<Rightarrow> None
      | Some (v, r) \<Rightarrow>
          (case r of
             [] \<Rightarrow> None
           | c # r' \<Rightarrow>
               if c = CHR '','' then map_option (\<lambda>p. (v # fst p, snd p)) (readElems f r')
               else if c = CHR '']'' then Some ([v], r')
               else None))"
| "readMembers 0 s = None"
| "readMembers (Suc f) s =
     (case s of
        [] \<Rightarrow> None
      | q # s1 \<Rightarrow>
          if q \<noteq> CHR 0x22 then None
          else
            (case readString s1 of
               None \<Rightarrow> None
             | Some (k, r0) \<Rightarrow>
                 (case r0 of
                    [] \<Rightarrow> None
                  | col # r1 \<Rightarrow>
                      if col \<noteq> CHR '':'' then None
                      else
                        (case readValue f r1 of
                           None \<Rightarrow> None
                         | Some (v, r) \<Rightarrow>
                             (case r of
                                [] \<Rightarrow> None
                              | c # r' \<Rightarrow>
                                  if c = CHR '','' then
                                    map_option (\<lambda>p. ((k, v) # fst p, snd p)) (readMembers f r')
                                  else if c = CHR ''}'' then Some ([(k, v)], r')
                                  else None)))))"

definition okRest :: "string \<Rightarrow> bool" where
  "okRest rest = (case rest of [] \<Rightarrow> True | c # cs \<Rightarrow> \<not> isDigit c)"

definition JSON_parse_spec :: "string \<Rightarrow> json option" where
  "JSON_parse_spec s =
     (case readValue (Suc (length s)) s of
        Some (v, []) \<Rightarrow> Some v
      | _ \<Rightarrow> None)"

text \<open>The two things the specification reads back: the metadata object from the first part
  and the content from the second.\<close>

definition decodeMetadata_spec :: "multipart \<Rightarrow> json option" where
  "decodeMetadata_spec mp =
     (case decodeMultipart_spec mp of
        None \<Rightarrow> None
      | Some p \<Rightarrow> JSON_parse_spec (snd (fst p)))"

definition decodeContent_spec :: "multipart \<Rightarrow> string option" where
  "decodeContent_spec mp = map_option (\<lambda>p. snd (snd p)) (decodeMultipart_spec mp)"

section \<open>The authorization callback: \<^verbatim>\<open>src/google-handler.ts\<close>\<close>

text \<open>The request that reaches \<^verbatim>\<open>/callback\<close>, parsed: the origin of its URL and its
  query parameters in order. \<^verbatim>\<open>searchParams.get\<close> returns the first value of a name.\<close>

record callback_request =
  origin :: string
  searchParams :: "(string \<times> string) list"

record user_info =
  id' :: string
  email :: string
  name' :: string

text \<open>The \<^verbatim>\<open>props\<close> handed to the framework: the initial credential pair.\<close>

record Props =
  props_accessToken :: string
  props_refreshToken :: string
  props_expiresAt :: int

record completion =
  compl_request :: json
  compl_userId :: string
  compl_metadata :: "string \<times> string"
  compl_scope :: "json option"
  compl_props :: Props

datatype reply =
    Reply nat string
  | Redirect string nat

datatype hevent =
    KvGet string
  | KvDelete string
  | TokenExchange "(string \<times> string) list"
  | UserInfoFetch string
  | CompleteAuthorization completion

text \<open>
  What the handler runs against: \<open>OAUTH_KV\<close> holds the entries of the key-value store that
  are alive (an entry whose time to live has passed is absent), \<open>now\<close> is what
  \<^verbatim>\<open>Date.now()\<close> reads, \<open>trace\<close> records every store operation and every outgoing call in
  order. Callbacks are served one at a time.
\<close>

record hworld =
  now :: int
  OAUTH_KV :: "string \<rightharpoonup> string"
  trace :: "hevent list"

record henv =
  GOOGLE_CLIENT_ID :: string
  GOOGLE_CLIENT_SECRET :: string
  JSON_parse :: "string \<Rightarrow> json option"
  tokenExchange :: "hevent list \<Rightarrow> (string \<times> string) list \<Rightarrow> token_data outcome"
  userInfoEndpoint :: "hevent list \<Rightarrow> string \<Rightarrow> user_info outcome"
  completeAuthorization :: "completion \<Rightarrow> string option"

definition stateKeyOf :: "string \<Rightarrow> string" where
  "stateKeyOf stateKey = ''google_oauth_state:'' @ stateKey"

definition record_event :: "hevent \<Rightarrow> hworld \<Rightarrow> hworld" where
  "record_event e hw = hw\<lparr>trace := trace hw @ [e]\<rparr>"

definition after_fetch :: "nat \<Rightarrow> hevent \<Rightarrow> hworld \<Rightarrow> hworld" where
  "after_fetch dt e hw = hw\<lparr>now := now hw + int dt, trace := trace hw @ [e]\<rparr>"

text \<open>Lines 88 to 150 of \<^verbatim>\<open>handleCallback\<close>: the code exchange, the user-info fetch and
  the hand-over to the framework, for the \<open>code\<close> and the stored request \<open>oauthReq\<close>.\<close>

definition exchangeForm :: "henv \<Rightarrow> callback_request \<Rightarrow> string \<Rightarrow> (string \<times> string) list" where
  "exchangeForm H rq code =
     [(''code'', code),
      (''client_id'', GOOGLE_CLIENT_ID H),
      (''client_secret'', GOOGLE_CLIENT_SECRET H),
      (''redirect_uri'', origin rq @ ''/callback''),
      (''grant_type'', ''authorization_code'')]"

definition exchangeCode ::
  "henv \<Rightarrow> callback_request \<Rightarrow> string \<Rightarrow> json \<Rightarrow> hworld \<Rightarrow> (exn + reply) \<times> hworld" where
  "exchangeCode H rq code oauthReq hw =
     (let form = exchangeForm H rq code
      in
      case tokenExchange H (trace hw) form of
        Rejected dt \<Rightarrow> (Inl TypeError, after_fetch dt (TokenExchange form) hw)
      | Responded dt tokenRes \<Rightarrow>
          (let hw1 = after_fetch dt (TokenExchange form) hw in
           if \<not> ok tokenRes
           then (Inr (Reply 502 (''Google token exchange failed: '' @ bodyText tokenRes)), hw1)
           else
             (case bodyJson tokenRes of
                None \<Rightarrow> (Inl SyntaxError, hw1)
              | Some tokens \<Rightarrow>
                  (case refresh_token tokens of
                     None \<Rightarrow>
                       (Inr (Reply 400 ''Google did not return a refresh token. Please revoke access at https://myaccount.google.com/permissions and try again.''), hw1)
                   | Some [] \<Rightarrow>
                       (Inr (Reply 400 ''Google did not return a refresh token. Please revoke access at https://myaccount.google.com/permissions and try again.''), hw1)
                   | Some rt \<Rightarrow>
                       (case userInfoEndpoint H (trace hw1) (access_token tokens) of
                          Rejected dt' \<Rightarrow>
                            (Inl TypeError,
                             after_fetch dt' (UserInfoFetch (access_token tokens)) hw1)
                        | Responded dt' userRes \<Rightarrow>
                            (let hw2 = after_fetch dt' (UserInfoFetch (access_token tokens)) hw1 in
                             if \<not> ok userRes
                             then (Inr (Reply 502 ''Failed to fetch Google user info''), hw2)
                             else
                               (case bodyJson userRes of
                                  None \<Rightarrow> (Inl SyntaxError, hw2)
                                | Some userInfo \<Rightarrow>
                                    (case oauthReq of
                                       JNull \<Rightarrow> (Inl TypeError, hw2)
                                     | _ \<Rightarrow>
                                         (let args =
                                                \<lparr>compl_request = oauthReq,
                                                 compl_userId = id' userInfo,
                                                 compl_metadata = (email userInfo, name' userInfo),
                                                 compl_scope = optChain (Some oauthReq) ''scope'',
                                                 compl_props =
                                                   \<lparr>props_accessToken = access_token tokens,
                                                    props_refreshToken = rt,
                                                    props_expiresAt =
                                                      now hw2 + expires_in tokens * 1000\<rparr>\<rparr>;
                                              hw3 = record_event (CompleteAuthorization args) hw2
                                          in
                                          case completeAuthorization H args of
                                            None \<Rightarrow> (Inl Error, hw3)
                                          | Some redirectTo \<Rightarrow>
                                              (Inr (Redirect redirectTo 302), hw3))))))))))"

text \<open>\<^verbatim>\<open>handleCallback\<close>. A query parameter is falsy when it is missing or empty, and so
  is a stored value.\<close>

definition handleCallback ::
  "henv \<Rightarrow> callback_request \<Rightarrow> hworld \<Rightarrow> (exn + reply) \<times> hworld" where
  "handleCallback H rq hw =
     (case map_of (searchParams rq) ''error'' of
        Some (e # es) \<Rightarrow>
          (Inr (Reply 400 (''Google OAuth error: '' @
                  (case map_of (searchParams rq) ''error_description'' of
                     None \<Rightarrow> e # es
                   | Some desc \<Rightarrow> desc))), hw)
      | _ \<Rightarrow>
          (case (map_of (searchParams rq) ''code'', map_of (searchParams rq) ''state'') of
             (Some (c # cs), Some (s # ss)) \<Rightarrow>
               (let key = stateKeyOf (s # ss);
                    hw1 = record_event (KvGet key) hw
                in
                case OAUTH_KV hw1 key of
                  Some (v # vs) \<Rightarrow>
                    (let hw2 = record_event (KvDelete key) (hw1\<lparr>OAUTH_KV := (OAUTH_KV hw1)(key := None)\<rparr>)
                     in
                     case JSON_parse H (v # vs) of
                       None \<Rightarrow> (Inl SyntaxError, hw2)
                     | Some oauthReq \<Rightarrow> exchangeCode H rq (c # cs) oauthReq hw2)
                | _ \<Rightarrow> (Inr (Reply 400 ''Invalid or expired OAuth state''), hw1))
           | _ \<Rightarrow> (Inr (Reply 400 ''Missing code or state parameter''), hw)))"

text \<open>Callbacks served one after the other on the same store.\<close>

fun handleCallbacks ::
  "henv \<Rightarrow> callback_request list \<Rightarrow> hworld \<Rightarrow> (exn + reply) list \<times> hworld" where
  "handleCallbacks H [] hw = ([], hw)"
| "handleCallbacks H (rq # rqs) hw =
     (case handleCallback H rq hw of
        (r, hw1) \<Rightarrow> (case handleCallbacks H rqs hw1 of (rs, hw2) \<Rightarrow> (r # rs, hw2)))"

definition isRedirect :: "exn + reply \<Rightarrow> bool" where
  "isRedirect r = (case r of Inr (Redirect u n) \<Rightarrow> True | _ \<Rightarrow> False)"

definition isTokenExchange :: "hevent \<Rightarrow> bool" where
  "isTokenExchange e = (case e of TokenExchange f \<Rightarrow> True | _ \<Rightarrow> False)"


text \<open>A callback that reaches the state lookup: it carries no provider error, a code and a
  state.\<close>

definition carries :: "callback_request \<Rightarrow> string \<Rightarrow> string \<Rightarrow> bool" where
  "carries rq code s \<longleftrightarrow>
     (map_of (searchParams rq) ''error'' = None \<or> map_of (searchParams rq) ''error'' = Some [])
     \<and> map_of (searchParams rq) ''code'' = Some code \<and> code \<noteq> []
     \<and> map_of (searchParams rq) ''state'' = Some s \<and> s \<noteq> []"

text \<open>How many of the callbacks \<open>rqs\<close>, answered by \<open>rs\<close>, carried the state \<open>s\<close> and ended in
  the final redirect.\<close>

definition successesWith :: "string \<Rightarrow> callback_request list \<Rightarrow> (exn + reply) list \<Rightarrow> nat" where
  "successesWith s rqs rs =
     length (filter (\<lambda>p. map_of (searchParams (fst p)) ''state'' = Some s \<and> isRedirect (snd p))
               (zip rqs rs))"

section \<open>Scenarios\<close>

text \<open>Concrete clients, stores and remote parties on which the properties below are run.\<close>

definition ex_token :: "nat \<Rightarrow> string \<Rightarrow> token_data option \<Rightarrow> token_data response" where
  "ex_token st txt d = \<lparr>status = st, statusText = [], bodyText = txt, bodyJson = d\<rparr>"

definition ex_tokens :: "string option \<Rightarrow> token_data" where
  "ex_tokens rt = \<lparr>access_token = ''AT2'', expires_in = 3600, refresh_token = rt\<rparr>"

definition ex_api :: "nat \<Rightarrow> string \<Rightarrow> json option \<Rightarrow> json response" where
  "ex_api st txt j = \<lparr>status = st, statusText = txt, bodyText = [], bodyJson = j\<rparr>"

text \<open>The token endpoint always answers \<open>t\<close>; the remote API answers its \<open>n\<close>-th request
  (counted from 0) with \<open>a n\<close>.\<close>

definition ex_env :: "token_data outcome \<Rightarrow> (nat \<Rightarrow> json outcome) \<Rightarrow> env" where
  "ex_env t a =
     \<lparr>tokenEndpoint = (\<lambda>h f. t),
      remoteApi = (\<lambda>h u i. a (length (filter (\<lambda>e. \<not> isTokenFetch e) h)))\<rparr>"

definition ex_client :: "string \<Rightarrow> string \<Rightarrow> int \<Rightarrow> DriveClient" where
  "ex_client atok rtok ex =
     newDriveClient
       \<lparr>accessToken = atok, refreshToken = rtok, clientId = ''id'', clientSecret = ''secret'',
        expiresAt = Some ex\<rparr>"

definition ex_world :: world where
  "ex_world = \<lparr>clock = 1000, calls = []\<rparr>"

definition ex_get :: RequestInit where
  "ex_get = \<lparr>init_method = None, init_headers = [], init_body = None\<rparr>"

definition ex_callback :: "(string \<times> string) list \<Rightarrow> callback_request" where
  "ex_callback ps = \<lparr>origin = ''https://mcp.example'', searchParams = ps\<rparr>"

definition ex_user :: "user_info response" where
  "ex_user =
     \<lparr>status = 200, statusText = ''OK'', bodyText = [],
      bodyJson = Some \<lparr>id' = ''u1'', email = ''a@b.com'', name' = ''A''\<rparr>\<rparr>"

definition ex_henv :: "token_data response \<Rightarrow> user_info response \<Rightarrow> henv" where
  "ex_henv t u =
     \<lparr>GOOGLE_CLIENT_ID = ''id'',
      GOOGLE_CLIENT_SECRET = ''secret'',
      JSON_parse = (\<lambda>s. if s = ''{}'' then Some (JObj []) else None),
      tokenExchange = (\<lambda>h f. Responded 3 t),
      userInfoEndpoint = (\<lambda>h tok. Responded 4 u),
      completeAuthorization = (\<lambda>args. Some ''https://client.example/done'')\<rparr>"

definition ex_hworld :: hworld where
  "ex_hworld =
     \<lparr>now = 1000, OAUTH_KV = [stateKeyOf ''s1'' \<mapsto> ''{}''], trace = []\<rparr>"

text \<open>The token endpoint grants \<open>AT2\<close> for 3600 s; the remote API rejects the first request
  with 401 and answers every later one with the response \<open>a\<close>.\<close>

definition ex_env_401_then :: "json response \<Rightarrow> env" where
  "ex_env_401_then a =
     ex_env (Responded 5 (ex_token 200 [] (Some (ex_tokens None))))
       (\<lambda>n. Responded 7 (if n = 0 then ex_api 401 ''Unauthorized'' None else a))"

text \<open>The remote API answers every request with the response \<open>a\<close>.\<close>

definition ex_env_always :: "json response \<Rightarrow> env" where
  "ex_env_always a =
     ex_env (Responded 5 (ex_token 200 [] (Some (ex_tokens None)))) (\<lambda>n. Responded 7 a)"

text \<open>The metadata \<^verbatim>\<open>{"name":"a"}\<close>.\<close>

definition ex_metadata :: json where
  "ex_metadata = JObj [(''name'', JStr ''a'')]"

section \<open>Properties of the credential refresher\<close>

lemmas ex_defs =
  ex_token_def ex_tokens_def ex_api_def ex_env_def ex_client_def ex_world_def ex_get_def
  newDriveClient_def ex_env_401_then_def ex_env_always_def

lemmas count_defs = refreshExchanges_def remoteCalls_def isTokenFetch_def tick_def

lemma tick_counts:
  "refreshExchanges (tick dt (TokenFetch f) w) = refreshExchanges w + 1"
  "remoteCalls (tick dt (TokenFetch f) w) = remoteCalls w"
  "refreshExchanges (tick dt (ApiFetch u i) w) = refreshExchanges w"
  "remoteCalls (tick dt (ApiFetch u i) w) = remoteCalls w + 1"
  by (simp_all add: count_defs)

text \<open>Once the fast path is left and a refresh token is there, the token endpoint is called
  exactly once, whatever it answers.\<close>

lemma refresh_path_world:
  assumes "forceRefresh \<or> currentAccessToken c = [] \<or> tokenExpiry c \<le> clock w"
    and "refreshToken (config c) \<noteq> []"
  shows "\<exists>dt. snd (snd (getAccessToken E forceRefresh c w)) = tick dt (TokenFetch (refreshForm c)) w"
  using assms
  by (auto simp: getAccessToken_def Let_def split: outcome.splits option.splits)

lemma refresh_success:
  assumes "forceRefresh \<or> currentAccessToken c = [] \<or> tokenExpiry c \<le> clock w"
    and "refreshToken (config c) \<noteq> []"
    and "tokenEndpoint E (calls w) (refreshForm c) = Responded dt res"
    and "ok res" and "bodyJson res = Some d"
  shows "getAccessToken E forceRefresh c w =
           (Inr (access_token d),
            c\<lparr>config := (config c)\<lparr>refreshToken :=
                  (case refresh_token d of
                     None \<Rightarrow> refreshToken (config c)
                   | Some r \<Rightarrow> if r = [] then refreshToken (config c) else r)\<rparr>,
              currentAccessToken := access_token d,
              tokenExpiry := clock w + int dt + (expires_in d - 60) * 1000\<rparr>,
            tick dt (TokenFetch (refreshForm c)) w)"
  using assms
  by (auto simp: getAccessToken_def Let_def tick_def split: option.splits)

lemma refresh_success_only:
  assumes "forceRefresh \<or> currentAccessToken c = [] \<or> tokenExpiry c \<le> clock w"
    and "fst (getAccessToken E forceRefresh c w) = Inr tok"
  shows "\<exists>dt res d. tokenEndpoint E (calls w) (refreshForm c) = Responded dt res \<and> ok res
           \<and> bodyJson res = Some d \<and> refreshToken (config c) \<noteq> []"
  using assms
  by (auto simp: getAccessToken_def Let_def split: outcome.splits option.splits if_splits)

text \<open>
  \<^bold>\<open>C2.\<close> When the token has expired (\<open>tokenExpiry c \<le> clock w\<close>) and the refresh token
  is not empty, a non-forced \<open>getAccessToken\<close> calls the token endpoint exactly once and makes
  no other call. It returns a token only if the endpoint answered 2xx with a JSON body, and
  whenever it did so the new expiry is the time read after the answer plus
  \<open>(expires_in - 60)\<close> seconds, in milliseconds.
\<close>

theorem expired_token_refreshes_once:
  assumes "tokenExpiry c \<le> clock w"
    and "refreshToken (config c) \<noteq> []"
    and "getAccessToken E False c w = (r, c', w')"
  shows "refreshExchanges w' = refreshExchanges w + 1
     \<and> remoteCalls w' = remoteCalls w
     \<and> (\<forall>tok. r = Inr tok \<longrightarrow>
          (\<exists>dt res d. tokenEndpoint E (calls w) (refreshForm c) = Responded dt res \<and> ok res
             \<and> bodyJson res = Some d \<and> tok = access_token d))
     \<and> (\<forall>dt res d. tokenEndpoint E (calls w) (refreshForm c) = Responded dt res \<and> ok res
             \<and> bodyJson res = Some d \<longrightarrow>
          r = Inr (access_token d) \<and> clock w' = clock w + int dt
          \<and> tokenExpiry c' = clock w' + (expires_in d - 60) * 1000)"
proof -
  have attempt: "False \<or> currentAccessToken c = [] \<or> tokenExpiry c \<le> clock w"
    using assms(1) by simp
  obtain dt0 where "w' = tick dt0 (TokenFetch (refreshForm c)) w"
    using refresh_path_world[OF attempt assms(2), of E] assms(3) by auto
  then have counts: "refreshExchanges w' = refreshExchanges w + 1" "remoteCalls w' = remoteCalls w"
    by (simp_all add: tick_counts)
  have only: "\<forall>tok. r = Inr tok \<longrightarrow>
          (\<exists>dt res d. tokenEndpoint E (calls w) (refreshForm c) = Responded dt res \<and> ok res
             \<and> bodyJson res = Some d \<and> tok = access_token d)"
  proof (intro allI impI)
    fix tok assume "r = Inr tok"
    then have ret: "fst (getAccessToken E False c w) = Inr tok" using assms(3) by simp
    from refresh_success_only[OF attempt ret]
    obtain dt res d where ep: "tokenEndpoint E (calls w) (refreshForm c) = Responded dt res"
      "ok res" "bodyJson res = Some d" by blast
    from refresh_success[OF attempt assms(2) ep] ret have "tok = access_token d" by simp
    with ep show "\<exists>dt res d. tokenEndpoint E (calls w) (refreshForm c) = Responded dt res \<and> ok res
             \<and> bodyJson res = Some d \<and> tok = access_token d" by blast
  qed
  have formula: "\<forall>dt res d. tokenEndpoint E (calls w) (refreshForm c) = Responded dt res \<and> ok res
             \<and> bodyJson res = Some d \<longrightarrow>
          r = Inr (access_token d) \<and> clock w' = clock w + int dt
          \<and> tokenExpiry c' = clock w' + (expires_in d - 60) * 1000"
  proof (intro allI impI)
    fix dt res d
    assume "tokenEndpoint E (calls w) (refreshForm c) = Responded dt res \<and> ok res
             \<and> bodyJson res = Some d"
    then have ep: "tokenEndpoint E (calls w) (refreshForm c) = Responded dt res"
      "ok res" "bodyJson res = Some d" by simp_all
    from refresh_success[OF attempt assms(2) ep] assms(3)
    show "r = Inr (access_token d) \<and> clock w' = clock w + int dt
          \<and> tokenExpiry c' = clock w' + (expires_in d - 60) * 1000"
      by (auto simp: tick_def)
  qed
  from counts only formula show ?thesis by blast
qed

text \<open>The theorem on a pair that expired at 500, read at 1000; the endpoint answers after
  5 ms with \<open>expires_in = 3600\<close>.\<close>

theorem expired_token_refreshes_once_witness:
  "tokenExpiry (ex_client ''AT1'' ''RT1'' 500) \<le> clock ex_world
   \<and> refreshToken (config (ex_client ''AT1'' ''RT1'' 500)) \<noteq> []
   \<and> fst (getAccessToken (ex_env (Responded 5 (ex_token 200 [] (Some (ex_tokens None)))) (\<lambda>n. Rejected 0))
            False (ex_client ''AT1'' ''RT1'' 500) ex_world) = Inr ''AT2''
   \<and> refreshExchanges (snd (snd (getAccessToken
            (ex_env (Responded 5 (ex_token 200 [] (Some (ex_tokens None)))) (\<lambda>n. Rejected 0))
            False (ex_client ''AT1'' ''RT1'' 500) ex_world))) = 1
   \<and> tokenExpiry (fst (snd (getAccessToken
            (ex_env (Responded 5 (ex_token 200 [] (Some (ex_tokens None)))) (\<lambda>n. Rejected 0))
            False (ex_client ''AT1'' ''RT1'' 500) ex_world))) = 1005 + (3600 - 60) * 1000"
proof -
  let ?E = "ex_env (Responded 5 (ex_token 200 [] (Some (ex_tokens None)))) (\<lambda>n. Rejected 0)"
  let ?c = "ex_client ''AT1'' ''RT1'' 500"
  have h1: "tokenExpiry ?c \<le> clock ex_world" by (simp add: ex_defs)
  have h2: "refreshToken (config ?c) \<noteq> []" by (simp add: ex_defs)
  obtain r c' w' where run: "getAccessToken ?E False ?c ex_world = (r, c', w')"
    by (cases "getAccessToken ?E False ?c ex_world")
  have ep: "tokenEndpoint ?E (calls ex_world) (refreshForm ?c)
              = Responded 5 (ex_token 200 [] (Some (ex_tokens None)))"
    by (simp add: ex_env_def)
  have okr: "ok (ex_token 200 [] (Some (ex_tokens None)))"
    "bodyJson (ex_token 200 [] (Some (ex_tokens None))) = Some (ex_tokens None)"
    by (simp_all add: ok_def ex_token_def)
  from expired_token_refreshes_once[OF h1 h2 run] ep okr
  have "refreshExchanges w' = refreshExchanges ex_world + 1"
    "r = Inr (access_token (ex_tokens None))"
    "clock w' = clock ex_world + int 5"
    "tokenExpiry c' = clock w' + (expires_in (ex_tokens None) - 60) * 1000"
    by blast+
  then show ?thesis using h1 h2 run
    by (simp add: ex_tokens_def ex_world_def refreshExchanges_def)
qed

text \<open>
  \<^bold>\<open>C3\<close>, as amended. When the current access token is not empty and has not expired
  (\<open>clock w < tokenExpiry c\<close>), a non-forced \<open>getAccessToken\<close> returns that token and leaves
  the client and the world as they are: no call is made, and access token, refresh token and
  expiry are the ones before.
\<close>

theorem fresh_token_is_returned_unchanged:
  assumes "currentAccessToken c \<noteq> []"
    and "clock w < tokenExpiry c"
  shows "getAccessToken E False c w = (Inr (currentAccessToken c), c, w)"
  using assms by (simp add: getAccessToken_def)

theorem fresh_token_is_returned_unchanged_witness:
  "currentAccessToken (ex_client ''AT1'' ''RT1'' 2000) \<noteq> []
   \<and> clock ex_world < tokenExpiry (ex_client ''AT1'' ''RT1'' 2000)
   \<and> getAccessToken (ex_env (Rejected 0) (\<lambda>n. Rejected 0)) False
         (ex_client ''AT1'' ''RT1'' 2000) ex_world
       = (Inr ''AT1'', ex_client ''AT1'' ''RT1'' 2000, ex_world)"
proof -
  have h1: "currentAccessToken (ex_client ''AT1'' ''RT1'' 2000) \<noteq> []" by (simp add: ex_defs)
  have h2: "clock ex_world < tokenExpiry (ex_client ''AT1'' ''RT1'' 2000)" by (simp add: ex_defs)
  from fresh_token_is_returned_unchanged[OF h1 h2, of "ex_env (Rejected 0) (\<lambda>n. Rejected 0)"] h1 h2
  show ?thesis by (simp add: ex_defs)
qed

text \<open>The claim as stated, for every pair with \<open>now < expiresAt\<close>, fails on a pair whose
  access token is empty: the expiry lies 1000 ms ahead, and still the token endpoint is
  called and the pair is replaced.\<close>

theorem fresh_pair_with_empty_token_counterexample:
  "clock ex_world < tokenExpiry (ex_client [] ''RT1'' 2000)
   \<and> refreshExchanges ex_world = 0
   \<and> refreshExchanges (snd (snd (getAccessToken
        (ex_env (Responded 5 (ex_token 200 [] (Some (ex_tokens None)))) (\<lambda>n. Rejected 0))
        False (ex_client [] ''RT1'' 2000) ex_world))) = 1
   \<and> fst (snd (getAccessToken
        (ex_env (Responded 5 (ex_token 200 [] (Some (ex_tokens None)))) (\<lambda>n. Rejected 0))
        False (ex_client [] ''RT1'' 2000) ex_world)) \<noteq> ex_client [] ''RT1'' 2000"
  by (simp add: ex_defs getAccessToken_def ok_def Let_def count_defs)

text \<open>
  \<^bold>\<open>C8\<close>, as amended. When the current access token is empty, a non-forced
  \<open>getAccessToken\<close> does what a forced one does, whatever the expiry: it never answers from
  the fast path, and when the refresh token is not empty it calls the token endpoint exactly
  once.
\<close>

theorem empty_access_token_forces_refresh:
  assumes "currentAccessToken c = []"
  shows "getAccessToken E False c w = getAccessToken E True c w
     \<and> getAccessToken E False c w \<noteq> (Inr (currentAccessToken c), c, w)
     \<and> (refreshToken (config c) \<noteq> [] \<longrightarrow>
          refreshExchanges (snd (snd (getAccessToken E False c w))) = refreshExchanges w + 1)"
proof -
  have same: "getAccessToken E False c w = getAccessToken E True c w"
    using assms by (simp add: getAccessToken_def)
  have attempt: "False \<or> currentAccessToken c = [] \<or> tokenExpiry c \<le> clock w"
    using assms by simp
  have once: "refreshExchanges (snd (snd (getAccessToken E False c w))) = refreshExchanges w + 1"
    if "refreshToken (config c) \<noteq> []"
    using refresh_path_world[OF attempt that, of E] by (auto simp: tick_counts)
  have "getAccessToken E False c w \<noteq> (Inr (currentAccessToken c), c, w)"
  proof (cases "refreshToken (config c) = []")
    case True
    then show ?thesis using assms by (simp add: getAccessToken_def)
  next
    case False
    from once[OF False] show ?thesis by auto
  qed
  with same once show ?thesis by blast
qed

theorem empty_access_token_forces_refresh_witness:
  "currentAccessToken (ex_client [] ''RT1'' 2000) = []
   \<and> clock ex_world < tokenExpiry (ex_client [] ''RT1'' 2000)
   \<and> refreshToken (config (ex_client [] ''RT1'' 2000)) \<noteq> []
   \<and> refreshExchanges (snd (snd (getAccessToken (ex_env (Rejected 0) (\<lambda>n. Rejected 0)) False
         (ex_client [] ''RT1'' 2000) ex_world))) = 1"
proof -
  have h: "currentAccessToken (ex_client [] ''RT1'' 2000) = []" by (simp add: ex_defs)
  have r: "refreshToken (config (ex_client [] ''RT1'' 2000)) \<noteq> []" by (simp add: ex_defs)
  have f: "clock ex_world < tokenExpiry (ex_client [] ''RT1'' 2000)" by (simp add: ex_defs)
  from empty_access_token_forces_refresh[OF h, of "ex_env (Rejected 0) (\<lambda>n. Rejected 0)" ex_world] r
  have "refreshExchanges (snd (snd (getAccessToken (ex_env (Rejected 0) (\<lambda>n. Rejected 0)) False
          (ex_client [] ''RT1'' 2000) ex_world)))
          = refreshExchanges ex_world + 1"
    by blast
  moreover have "refreshExchanges ex_world = 0" by (simp add: ex_world_def refreshExchanges_def)
  ultimately show ?thesis using h r f by simp
qed


text \<open>The claim as stated, for every pair whose access token is empty, fails on a pair whose
  refresh token is empty as well: the call leaves the fast path and throws at once, and no
  refresh exchange takes place.\<close>

theorem empty_pair_makes_no_exchange_counterexample:
  "currentAccessToken (ex_client [] [] 2000) = []
   \<and> clock ex_world < tokenExpiry (ex_client [] [] 2000)
   \<and> getAccessToken (ex_env (Responded 5 (ex_token 200 [] (Some (ex_tokens None)))) (\<lambda>n. Rejected 0))
         False (ex_client [] [] 2000) ex_world
       = (Inl (DriveApiError 401 ''Access token expired and no refresh token available''),
          ex_client [] [] 2000, ex_world)
   \<and> refreshExchanges ex_world = 0"
  by (simp add: ex_defs getAccessToken_def count_defs)

lemma refresh_failure:
  assumes "forceRefresh \<or> currentAccessToken c = [] \<or> tokenExpiry c \<le> clock w"
    and "refreshToken (config c) \<noteq> []"
    and "tokenEndpoint E (calls w) (refreshForm c) = Responded dt res"
    and "\<not> ok res"
  shows "getAccessToken E forceRefresh c w =
           (Inl (if status res = 400 \<and> str_includes (bodyText res) ''invalid_grant''
                 then DriveApiError 401
                        (''Google refresh token is invalid or revoked ('' @ bodyText res @ '')'')
                 else DriveApiError (status res) (''Token refresh failed: '' @ bodyText res)),
            c, tick dt (TokenFetch (refreshForm c)) w)"
  using assms by (auto simp: getAccessToken_def Let_def)

lemma refresh_without_token:
  assumes "forceRefresh \<or> currentAccessToken c = [] \<or> tokenExpiry c \<le> clock w"
    and "refreshToken (config c) = []"
  shows "getAccessToken E forceRefresh c w =
           (Inl (DriveApiError 401 ''Access token expired and no refresh token available''), c, w)"
  using assms by (auto simp: getAccessToken_def)

text \<open>
  \<^bold>\<open>C4\<close>, as amended. The source has one error class; the three failures of the
  specification are told apart by status and message. On a refresh attempt (forced, or the
  access token empty or expired):
  \<^item> an empty refresh token gives \<open>DriveApiError 401\<close> "Access token expired and no refresh
    token available" (\<open>ErrNoRefreshToken\<close>), with the client and the world untouched, so
    the token endpoint is not contacted;
  \<^item> an answer that is not 2xx, of status exactly 400 and with \<open>invalid_grant\<close> in its body,
    gives \<open>DriveApiError 401\<close> "Google refresh token is invalid or revoked (...)"
    (\<open>ErrCredentialRevoked\<close>);
  \<^item> every other answer that is not 2xx gives \<open>DriveApiError\<close> with the answer's status and
    "Token refresh failed: ..." (\<open>ErrRefreshFailed\<close>).
\<close>

theorem refresh_failures_are_typed:
  assumes "forceRefresh \<or> currentAccessToken c = [] \<or> tokenExpiry c \<le> clock w"
  shows "(refreshToken (config c) = [] \<longrightarrow>
            getAccessToken E forceRefresh c w =
              (Inl (DriveApiError 401 ''Access token expired and no refresh token available''),
               c, w))
     \<and> (\<forall>dt res. refreshToken (config c) \<noteq> []
            \<and> tokenEndpoint E (calls w) (refreshForm c) = Responded dt res \<and> \<not> ok res \<longrightarrow>
            getAccessToken E forceRefresh c w =
              (Inl (if status res = 400 \<and> str_includes (bodyText res) ''invalid_grant''
                    then DriveApiError 401
                           (''Google refresh token is invalid or revoked ('' @ bodyText res @ '')'')
                    else DriveApiError (status res) (''Token refresh failed: '' @ bodyText res)),
               c, tick dt (TokenFetch (refreshForm c)) w))"
  using refresh_without_token[OF assms] refresh_failure[OF assms] by blast

text \<open>The three failures, each on a forced refresh: no refresh token; 400 with
  \<open>invalid_grant\<close>; 500.\<close>

theorem refresh_failures_are_typed_witness:
  "getAccessToken (ex_env (Rejected 0) (\<lambda>n. Rejected 0)) True (ex_client ''AT1'' [] 2000) ex_world
     = (Inl (DriveApiError 401 ''Access token expired and no refresh token available''),
        ex_client ''AT1'' [] 2000, ex_world)
   \<and> fst (getAccessToken (ex_env (Responded 5 (ex_token 400 ''invalid_grant'' None)) (\<lambda>n. Rejected 0))
           True (ex_client ''AT1'' ''RT1'' 2000) ex_world)
     = Inl (DriveApiError 401 ''Google refresh token is invalid or revoked (invalid_grant)'')
   \<and> fst (getAccessToken (ex_env (Responded 5 (ex_token 500 ''busy'' None)) (\<lambda>n. Rejected 0))
           True (ex_client ''AT1'' ''RT1'' 2000) ex_world)
     = Inl (DriveApiError 500 ''Token refresh failed: busy'')"
proof -
  let ?none = "ex_env (Rejected 0) (\<lambda>n. Rejected 0)"
  let ?revoked = "ex_env (Responded 5 (ex_token 400 ''invalid_grant'' None)) (\<lambda>n. Rejected 0)"
  let ?busy = "ex_env (Responded 5 (ex_token 500 ''busy'' None)) (\<lambda>n. Rejected 0)"
  let ?c = "ex_client ''AT1'' ''RT1'' 2000"
  have forced: "True \<or> currentAccessToken c = [] \<or> tokenExpiry c \<le> clock w" for c w by simp
  have a: "getAccessToken ?none True (ex_client ''AT1'' [] 2000) ex_world
     = (Inl (DriveApiError 401 ''Access token expired and no refresh token available''),
        ex_client ''AT1'' [] 2000, ex_world)"
    using refresh_failures_are_typed[OF forced, of "ex_client ''AT1'' [] 2000" ?none ex_world]
    by (simp add: ex_defs)
  have rt: "refreshToken (config ?c) \<noteq> []" by (simp add: ex_defs)
  have "tokenEndpoint ?revoked (calls ex_world) (refreshForm ?c)
          = Responded 5 (ex_token 400 ''invalid_grant'' None)
        \<and> \<not> ok (ex_token 400 ''invalid_grant'' None)"
    by (simp add: ex_env_def ex_token_def ok_def)
  with refresh_failures_are_typed[OF forced, of ?c ?revoked ex_world] rt
  have b: "fst (getAccessToken ?revoked True ?c ex_world)
     = Inl (DriveApiError 401 ''Google refresh token is invalid or revoked (invalid_grant)'')"
    by (simp add: ex_token_def)
  have "tokenEndpoint ?busy (calls ex_world) (refreshForm ?c)
          = Responded 5 (ex_token 500 ''busy'' None)
        \<and> \<not> ok (ex_token 500 ''busy'' None)"
    by (simp add: ex_env_def ex_token_def ok_def)
  with refresh_failures_are_typed[OF forced, of ?c ?busy ex_world] rt
  have c: "fst (getAccessToken ?busy True ?c ex_world)
     = Inl (DriveApiError 500 ''Token refresh failed: busy'')"
    by (simp add: ex_token_def)
  from a b c show ?thesis by blast
qed

text \<open>The claim as stated, for every 400-class answer whose body names an invalid grant,
  fails on status 403: the failure raised is the one of a failed refresh, with status 403.\<close>

theorem refresh_403_invalid_grant_counterexample:
  "400 \<le> status (ex_token 403 ''invalid_grant'' None)
   \<and> status (ex_token 403 ''invalid_grant'' None) \<le> 499
   \<and> str_includes (bodyText (ex_token 403 ''invalid_grant'' None)) ''invalid_grant''
   \<and> fst (getAccessToken (ex_env (Responded 5 (ex_token 403 ''invalid_grant'' None)) (\<lambda>n. Rejected 0))
           True (ex_client ''AT1'' ''RT1'' 2000) ex_world)
     = Inl (DriveApiError 403 ''Token refresh failed: invalid_grant'')"
  by (simp add: ex_defs getAccessToken_def ok_def Let_def)

text \<open>
  \<^bold>\<open>C7\<close>, as amended. After a refresh exchange that the endpoint answered 2xx with the
  body \<open>d\<close>, the client is the old one with the access token and the expiry replaced and,
  only when \<open>d\<close> carries a non-empty \<open>refresh_token\<close>, the refresh token replaced by it. A
  body without the field, or with the empty string in it, leaves the refresh token as it
  was; nothing else of the client changes.
\<close>

theorem refresh_token_kept_or_rotated:
  assumes "forceRefresh \<or> currentAccessToken c = [] \<or> tokenExpiry c \<le> clock w"
    and "refreshToken (config c) \<noteq> []"
    and "tokenEndpoint E (calls w) (refreshForm c) = Responded dt res"
    and "ok res"
    and "bodyJson res = Some d"
    and "getAccessToken E forceRefresh c w = (r, c', w')"
  shows "r = Inr (access_token d)
     \<and> (refresh_token d = None \<longrightarrow>
          c' = c\<lparr>currentAccessToken := access_token d,
                 tokenExpiry := clock w' + (expires_in d - 60) * 1000\<rparr>
          \<and> refreshToken (config c') = refreshToken (config c))
     \<and> (refresh_token d = Some [] \<longrightarrow>
          c' = c\<lparr>currentAccessToken := access_token d,
                 tokenExpiry := clock w' + (expires_in d - 60) * 1000\<rparr>
          \<and> refreshToken (config c') = refreshToken (config c))
     \<and> (\<forall>rt. refresh_token d = Some rt \<and> rt \<noteq> [] \<longrightarrow>
          c' = c\<lparr>config := (config c)\<lparr>refreshToken := rt\<rparr>,
                 currentAccessToken := access_token d,
                 tokenExpiry := clock w' + (expires_in d - 60) * 1000\<rparr>
          \<and> refreshToken (config c') = rt)"
  using refresh_success[OF assms(1-5)] assms(6) by (auto simp: tick_def)

theorem refresh_token_kept_or_rotated_witness:
  "refreshToken (config (fst (snd (getAccessToken
       (ex_env (Responded 5 (ex_token 200 [] (Some (ex_tokens None)))) (\<lambda>n. Rejected 0))
       True (ex_client ''AT1'' ''RT1'' 2000) ex_world)))) = ''RT1''
   \<and> refreshToken (config (fst (snd (getAccessToken
       (ex_env (Responded 5 (ex_token 200 [] (Some (ex_tokens (Some ''RT2''))))) (\<lambda>n. Rejected 0))
       True (ex_client ''AT1'' ''RT1'' 2000) ex_world)))) = ''RT2''"
proof -
  let ?c = "ex_client ''AT1'' ''RT1'' 2000"
  have forced: "True \<or> currentAccessToken ?c = [] \<or> tokenExpiry ?c \<le> clock ex_world" by simp
  have rt: "refreshToken (config ?c) \<noteq> []" by (simp add: ex_defs)
  have keep: "refreshToken (config (fst (snd (getAccessToken
       (ex_env (Responded 5 (ex_token 200 [] (Some (ex_tokens None)))) (\<lambda>n. Rejected 0))
       True ?c ex_world)))) = ''RT1''"
  proof -
    let ?E = "ex_env (Responded 5 (ex_token 200 [] (Some (ex_tokens None)))) (\<lambda>n. Rejected 0)"
    obtain r c' w' where run: "getAccessToken ?E True ?c ex_world = (r, c', w')"
      by (cases "getAccessToken ?E True ?c ex_world")
    have ep: "tokenEndpoint ?E (calls ex_world) (refreshForm ?c)
                = Responded 5 (ex_token 200 [] (Some (ex_tokens None)))"
      by (simp add: ex_env_def)
    have okr: "ok (ex_token 200 [] (Some (ex_tokens None)))" by (simp add: ok_def ex_token_def)
    have js: "bodyJson (ex_token 200 [] (Some (ex_tokens None))) = Some (ex_tokens None)"
      by (simp add: ex_token_def)
    have "refresh_token (ex_tokens None) = None" by (simp add: ex_tokens_def)
    with refresh_token_kept_or_rotated[OF forced rt ep okr js run]
    have "refreshToken (config c') = refreshToken (config ?c)" by blast
    then show ?thesis using run by (simp add: ex_defs)
  qed
  have rotate: "refreshToken (config (fst (snd (getAccessToken
       (ex_env (Responded 5 (ex_token 200 [] (Some (ex_tokens (Some ''RT2''))))) (\<lambda>n. Rejected 0))
       True ?c ex_world)))) = ''RT2''"
  proof -
    let ?E = "ex_env (Responded 5 (ex_token 200 [] (Some (ex_tokens (Some ''RT2''))))) (\<lambda>n. Rejected 0)"
    obtain r c' w' where run: "getAccessToken ?E True ?c ex_world = (r, c', w')"
      by (cases "getAccessToken ?E True ?c ex_world")
    have ep: "tokenEndpoint ?E (calls ex_world) (refreshForm ?c)
                = Responded 5 (ex_token 200 [] (Some (ex_tokens (Some ''RT2''))))"
      by (simp add: ex_env_def)
    have okr: "ok (ex_token 200 [] (Some (ex_tokens (Some ''RT2''))))"
      by (simp add: ok_def ex_token_def)
    have js: "bodyJson (ex_token 200 [] (Some (ex_tokens (Some ''RT2''))))
                = Some (ex_tokens (Some ''RT2''))"
      by (simp add: ex_token_def)
    have "refresh_token (ex_tokens (Some ''RT2'')) = Some ''RT2'' \<and> ''RT2'' \<noteq> []"
      by (simp add: ex_tokens_def)
    with refresh_token_kept_or_rotated[OF forced rt ep okr js run]
    have "refreshToken (config c') = ''RT2''" by blast
    then show ?thesis using run by simp
  qed
  from keep rotate show ?thesis by blast
qed

text \<open>The claim as stated, for every answer that includes a \<open>refresh_token\<close>, fails on an
  answer that includes the empty string: the pair keeps the refresh token it had.\<close>

theorem empty_refresh_token_in_answer_counterexample:
  "refresh_token (ex_tokens (Some [])) = Some []
   \<and> fst (getAccessToken
       (ex_env (Responded 5 (ex_token 200 [] (Some (ex_tokens (Some []))))) (\<lambda>n. Rejected 0))
       True (ex_client ''AT1'' ''RT1'' 2000) ex_world) = Inr ''AT2''
   \<and> refreshToken (config (fst (snd (getAccessToken
       (ex_env (Responded 5 (ex_token 200 [] (Some (ex_tokens (Some []))))) (\<lambda>n. Rejected 0))
       True (ex_client ''AT1'' ''RT1'' 2000) ex_world)))) = ''RT1''"
  by (simp add: ex_defs getAccessToken_def ok_def Let_def)


section \<open>Properties of the request executor\<close>

lemma entry_world:
  assumes "getAccessToken E False c w = (Inr tok, c1, w1)"
  shows "remoteCalls w1 = remoteCalls w"
    and "currentAccessToken c \<noteq> [] \<and> clock w < tokenExpiry c \<Longrightarrow>
           tok = currentAccessToken c \<and> c1 = c \<and> w1 = w"
  using assms
  by (auto simp: getAccessToken_def Let_def tick_counts
      split: outcome.splits option.splits if_splits)

lemma forced_world:
  assumes "getAccessToken E True c w = (Inr tok, c', w')"
  shows "\<exists>dt. w' = tick dt (TokenFetch (refreshForm c)) w"
  using assms
  by (auto simp: getAccessToken_def Let_def split: outcome.splits option.splits if_splits)

lemma forced_failure_world:
  assumes "getAccessToken E True c w = (Inl e, c', w')"
  shows "remoteCalls w' = remoteCalls w"
  using assms
  by (auto simp: getAccessToken_def Let_def tick_counts
      split: outcome.splits option.splits if_splits)

lemma request_settles_first:
  assumes "getAccessToken E False c w = (Inr tok, c1, w1)"
    and "remoteApi E (calls w1) url (withBearer options tok) = Responded dt res"
    and "status res \<noteq> 401"
  shows "request E url options c w =
           (settle res, c1, tick dt (ApiFetch url (withBearer options tok)) w1)"
  using assms by (simp add: request_def makeRequest_def)

lemma request_settles_second:
  assumes "getAccessToken E False c w = (Inr tok, c1, w1)"
    and "remoteApi E (calls w1) url (withBearer options tok) = Responded dt res"
    and "status res = 401"
    and "getAccessToken E True c1 (tick dt (ApiFetch url (withBearer options tok)) w1)
           = (Inr tok', c2, w3)"
    and "remoteApi E (calls w3) url (withBearer options tok') = Responded dt' res'"
  shows "request E url options c w =
           (settle res', c2, tick dt' (ApiFetch url (withBearer options tok')) w3)"
  using assms by (simp add: request_def makeRequest_def)

lemma request_forced_refresh_fails:
  assumes "getAccessToken E False c w = (Inr tok, c1, w1)"
    and "remoteApi E (calls w1) url (withBearer options tok) = Responded dt res"
    and "status res = 401"
    and "getAccessToken E True c1 (tick dt (ApiFetch url (withBearer options tok)) w1)
           = (Inl e, c2, w3)"
  shows "request E url options c w = (Inl e, c2, w3)"
  using assms by (simp add: request_def makeRequest_def)

lemma settle_cases:
  "ok res \<Longrightarrow> settle res = Inr res"
  "\<not> ok res \<Longrightarrow> settle res = Inl (newDriveApiError (status res) (errorMessage res))"
  "status res = 401 \<Longrightarrow> settle res = Inl (newDriveApiError 401 (errorMessage res))"
  by (simp_all add: settle_def ok_def)

lemma newDriveApiError_cases:
  "js_toString v = Some m \<Longrightarrow> newDriveApiError st v = DriveApiError st m"
  "js_toString v = None \<Longrightarrow> newDriveApiError st v = TypeError"
  "newDriveApiError st v \<noteq> SyntaxError"
  by (simp_all add: newDriveApiError_def split: option.splits)

text \<open>
  \<^bold>\<open>C1\<close>, as amended. Let the non-forced \<open>getAccessToken\<close> at the start of \<open>request\<close>
  return \<open>tok\<close> (leaving the client \<open>c1\<close> and the world \<open>w1\<close>; on the fast path these are
  the client and the world at entry, and no refresh exchange has happened), and let the
  remote API answer the first request with \<open>res\<close>.
  \<^item> If the status of \<open>res\<close> is not 401, \<open>request\<close> settles \<open>res\<close>: one remote call, and
    no refresh exchange after it.
  \<^item> If it is 401 and the forced refresh fails, \<open>request\<close> fails with the refresher's error
    and the request is not reissued.
  \<^item> If it is 401 and the forced refresh succeeds, the calls after \<open>w1\<close> are exactly the
    first request, one refresh exchange and the reissued request with the new token, and
    \<open>request\<close> settles the second answer \<open>res'\<close> with no further call: a 2xx answer is
    returned, and on a 401 \<open>request\<close> fails, with \<open>DriveApiError 401\<close> and the message of
    \<open>res'\<close> whenever that message converts to a string.
\<close>

theorem request_retries_once_after_401:
  assumes "getAccessToken E False c w = (Inr tok, c1, w1)"
    and "remoteApi E (calls w1) url (withBearer options tok) = Responded dt res"
    and "request E url options c w = (r, c', w')"
  shows "remoteCalls w1 = remoteCalls w
     \<and> (currentAccessToken c \<noteq> [] \<and> clock w < tokenExpiry c \<longrightarrow>
          tok = currentAccessToken c \<and> c1 = c \<and> w1 = w)
     \<and> (status res \<noteq> 401 \<longrightarrow>
          r = settle res \<and> c' = c1
          \<and> calls w' = calls w1 @ [ApiFetch url (withBearer options tok)]
          \<and> remoteCalls w' = remoteCalls w + 1
          \<and> refreshExchanges w' = refreshExchanges w1)
     \<and> (status res = 401 \<longrightarrow>
          (\<forall>e c2 w3.
             getAccessToken E True c1 (tick dt (ApiFetch url (withBearer options tok)) w1)
               = (Inl e, c2, w3) \<longrightarrow>
             r = Inl e \<and> remoteCalls w' = remoteCalls w + 1)
          \<and> (\<forall>tok' c2 w3 dt' res'.
             getAccessToken E True c1 (tick dt (ApiFetch url (withBearer options tok)) w1)
               = (Inr tok', c2, w3)
             \<and> remoteApi E (calls w3) url (withBearer options tok') = Responded dt' res' \<longrightarrow>
             r = settle res' \<and> c' = c2
             \<and> calls w' = calls w1 @
                 [ApiFetch url (withBearer options tok),
                  TokenFetch (refreshForm c1),
                  ApiFetch url (withBearer options tok')]
             \<and> remoteCalls w' = remoteCalls w + 2
             \<and> refreshExchanges w' = refreshExchanges w1 + 1
             \<and> (ok res' \<longrightarrow> r = Inr res')
             \<and> (status res' = 401 \<longrightarrow>
                  (\<exists>e. r = Inl e)
                  \<and> (\<forall>m. js_toString (errorMessage res') = Some m \<longrightarrow>
                         r = Inl (DriveApiError 401 m)))))"
proof -
  note entry = assms(1) and first = assms(2) and run = assms(3)
  let ?w2 = "tick dt (ApiFetch url (withBearer options tok)) w1"
  have A: "remoteCalls w1 = remoteCalls w" by (rule entry_world(1)[OF entry])
  have B: "currentAccessToken c \<noteq> [] \<and> clock w < tokenExpiry c \<longrightarrow>
          tok = currentAccessToken c \<and> c1 = c \<and> w1 = w"
    using entry_world(2)[OF entry] by blast
  have C: "r = settle res \<and> c' = c1
          \<and> calls w' = calls w1 @ [ApiFetch url (withBearer options tok)]
          \<and> remoteCalls w' = remoteCalls w + 1
          \<and> refreshExchanges w' = refreshExchanges w1" if "status res \<noteq> 401"
    using request_settles_first[OF entry first that] run A
    by (auto simp: tick_counts) (simp add: tick_def)
  have D: "r = Inl e \<and> remoteCalls w' = remoteCalls w + 1"
    if "status res = 401" and f: "getAccessToken E True c1 ?w2 = (Inl e, c2, w3)" for e c2 w3
    using request_forced_refresh_fails[OF entry first that] run A forced_failure_world[OF f]
    by (simp add: tick_counts)
  have F: "r = settle res' \<and> c' = c2
             \<and> calls w' = calls w1 @
                 [ApiFetch url (withBearer options tok),
                  TokenFetch (refreshForm c1),
                  ApiFetch url (withBearer options tok')]
             \<and> remoteCalls w' = remoteCalls w + 2
             \<and> refreshExchanges w' = refreshExchanges w1 + 1
             \<and> (ok res' \<longrightarrow> r = Inr res')
             \<and> (status res' = 401 \<longrightarrow>
                  (\<exists>e. r = Inl e)
                  \<and> (\<forall>m. js_toString (errorMessage res') = Some m \<longrightarrow>
                         r = Inl (DriveApiError 401 m)))"
    if u: "status res = 401"
      and f: "getAccessToken E True c1 ?w2 = (Inr tok', c2, w3)"
      and s: "remoteApi E (calls w3) url (withBearer options tok') = Responded dt' res'"
    for tok' c2 w3 dt' res'
  proof -
    obtain dt0 where w3: "w3 = tick dt0 (TokenFetch (refreshForm c1)) ?w2"
      using forced_world[OF f] by blast
    have res: "r = settle res'" "c' = c2"
      "w' = tick dt' (ApiFetch url (withBearer options tok')) w3"
      using request_settles_second[OF entry first u f s] run by simp_all
    have calls: "calls w' = calls w1 @
                 [ApiFetch url (withBearer options tok),
                  TokenFetch (refreshForm c1),
                  ApiFetch url (withBearer options tok')]"
      using res(3) w3 by (simp add: tick_def)
    have counts: "remoteCalls w' = remoteCalls w + 2" "refreshExchanges w' = refreshExchanges w1 + 1"
      using res(3) w3 A by (simp_all add: tick_counts)
    have good: "ok res' \<longrightarrow> r = Inr res'"
      using res(1) by (simp add: settle_cases)
    have bad: "status res' = 401 \<longrightarrow>
                  (\<exists>e. r = Inl e)
                  \<and> (\<forall>m. js_toString (errorMessage res') = Some m \<longrightarrow>
                         r = Inl (DriveApiError 401 m))"
      using res(1) by (simp add: settle_cases newDriveApiError_cases)
    from res(1,2) calls counts good bad show ?thesis by (intro conjI)
  qed
  from A B C D F show ?thesis by blast
qed

lemmas run_defs =
  request_def getAccessToken_def makeRequest_def settle_def ok_def withBearer_def
  refreshForm_def errorMessage_def newDriveApiError_def Let_def

text \<open>Three runs from a fresh pair: 401 then 200, 401 twice, and 403.\<close>

theorem request_retries_once_after_401_witness:
  "fst (request (ex_env_401_then (ex_api 200 ''OK'' None)) ''u'' ex_get (ex_client ''AT1'' ''RT1'' 2000) ex_world)
     = Inr (ex_api 200 ''OK'' None)
   \<and> remoteCalls (snd (snd (request (ex_env_401_then (ex_api 200 ''OK'' None)) ''u'' ex_get
        (ex_client ''AT1'' ''RT1'' 2000) ex_world))) = 2
   \<and> refreshExchanges (snd (snd (request (ex_env_401_then (ex_api 200 ''OK'' None)) ''u'' ex_get
        (ex_client ''AT1'' ''RT1'' 2000) ex_world))) = 1
   \<and> fst (request (ex_env_401_then (ex_api 401 ''Unauthorized'' None)) ''u'' ex_get (ex_client ''AT1'' ''RT1'' 2000) ex_world)
     = Inl (DriveApiError 401 ''Unauthorized'')
   \<and> remoteCalls (snd (snd (request (ex_env_401_then (ex_api 401 ''Unauthorized'' None)) ''u'' ex_get
        (ex_client ''AT1'' ''RT1'' 2000) ex_world))) = 2
   \<and> refreshExchanges (snd (snd (request (ex_env_401_then (ex_api 401 ''Unauthorized'' None)) ''u'' ex_get
        (ex_client ''AT1'' ''RT1'' 2000) ex_world))) = 1
   \<and> fst (request (ex_env_always (ex_api 403 ''Forbidden'' None)) ''u'' ex_get
        (ex_client ''AT1'' ''RT1'' 2000) ex_world)
     = Inl (DriveApiError 403 ''Forbidden'')
   \<and> remoteCalls (snd (snd (request (ex_env_always (ex_api 403 ''Forbidden'' None)) ''u'' ex_get
        (ex_client ''AT1'' ''RT1'' 2000) ex_world))) = 1
   \<and> refreshExchanges (snd (snd (request (ex_env_always (ex_api 403 ''Forbidden'' None)) ''u'' ex_get
        (ex_client ''AT1'' ''RT1'' 2000) ex_world))) = 0"
proof -
  let ?c = "ex_client ''AT1'' ''RT1'' 2000"
  let ?req1 = "ApiFetch ''u'' (withBearer ex_get ''AT1'')"
  have zero: "remoteCalls ex_world = 0" "refreshExchanges ex_world = 0"
    by (simp_all add: ex_world_def count_defs)
  have fresh: "currentAccessToken ?c \<noteq> [] \<and> clock ex_world < tokenExpiry ?c"
    by (simp add: ex_defs)
  have entry: "getAccessToken E False ?c ex_world = (Inr ''AT1'', ?c, ex_world)" for E
    using fresh by (simp add: getAccessToken_def) (simp add: ex_defs)
  have twice: "fst (request (ex_env_401_then a) ''u'' ex_get ?c ex_world) = settle a
     \<and> remoteCalls (snd (snd (request (ex_env_401_then a) ''u'' ex_get ?c ex_world))) = 2
     \<and> refreshExchanges (snd (snd (request (ex_env_401_then a) ''u'' ex_get ?c ex_world))) = 1
     \<and> (status a = 401 \<longrightarrow>
          (\<forall>m. js_toString (errorMessage a) = Some m \<longrightarrow>
             fst (request (ex_env_401_then a) ''u'' ex_get ?c ex_world)
               = Inl (DriveApiError 401 m)))"
    for a
  proof -
    let ?E = "ex_env_401_then a"
    have first: "remoteApi ?E (calls ex_world) ''u'' (withBearer ex_get ''AT1'')
                   = Responded 7 (ex_api 401 ''Unauthorized'' None)"
      by (simp add: ex_defs)
    obtain r c' w' where run: "request ?E ''u'' ex_get ?c ex_world = (r, c', w')"
      by (cases "request ?E ''u'' ex_get ?c ex_world")
    have unauthorized: "status (ex_api 401 ''Unauthorized'' None) = 401"
      by (simp add: ex_api_def)
    have rt: "refreshToken (config ?c) \<noteq> []" by (simp add: ex_defs)
    have ep: "tokenEndpoint ?E (calls (tick 7 ?req1 ex_world)) (refreshForm ?c)
                = Responded 5 (ex_token 200 [] (Some (ex_tokens None)))"
      by (simp add: ex_defs)
    have forced: "getAccessToken ?E True ?c (tick 7 ?req1 ex_world)
       = (Inr ''AT2'',
          ?c\<lparr>config := (config ?c)\<lparr>refreshToken := refreshToken (config ?c)\<rparr>,
              currentAccessToken := ''AT2'',
              tokenExpiry := clock (tick 7 ?req1 ex_world) + int 5 + (3600 - 60) * 1000\<rparr>,
          tick 5 (TokenFetch (refreshForm ?c)) (tick 7 ?req1 ex_world))"
      using refresh_success[of True ?c "tick 7 ?req1 ex_world" ?E 5
          "ex_token 200 [] (Some (ex_tokens None))" "ex_tokens None"] rt ep
      by (simp add: ok_def ex_token_def ex_tokens_def)
    have second: "remoteApi ?E (calls (tick 5 (TokenFetch (refreshForm ?c)) (tick 7 ?req1 ex_world)))
                    ''u'' (withBearer ex_get ''AT2'')
                   = Responded 7 a"
      by (simp add: ex_env_401_then_def ex_env_def ex_world_def count_defs)
    from request_retries_once_after_401[OF entry first run] unauthorized forced second
    have "r = settle a
       \<and> remoteCalls w' = remoteCalls ex_world + 2
       \<and> refreshExchanges w' = refreshExchanges ex_world + 1
       \<and> (status a = 401 \<longrightarrow>
            (\<forall>m. js_toString (errorMessage a) = Some m \<longrightarrow> r = Inl (DriveApiError 401 m)))"
      by blast
    moreover have "fst (request ?E ''u'' ex_get ?c ex_world) = r"
      "snd (snd (request ?E ''u'' ex_get ?c ex_world)) = w'"
      using run by simp_all
    ultimately show ?thesis using zero by auto
  qed
  have once: "fst (request (ex_env_always (ex_api 403 ''Forbidden'' None)) ''u'' ex_get ?c ex_world)
                 = settle (ex_api 403 ''Forbidden'' None)
     \<and> remoteCalls (snd (snd (request (ex_env_always (ex_api 403 ''Forbidden'' None)) ''u''
          ex_get ?c ex_world))) = 1
     \<and> refreshExchanges (snd (snd (request (ex_env_always (ex_api 403 ''Forbidden'' None)) ''u''
          ex_get ?c ex_world))) = 0"
  proof -
    let ?E = "ex_env_always (ex_api 403 ''Forbidden'' None)"
    have first: "remoteApi ?E (calls ex_world) ''u'' (withBearer ex_get ''AT1'')
                   = Responded 7 (ex_api 403 ''Forbidden'' None)"
      by (simp add: ex_defs)
    obtain r c' w' where run: "request ?E ''u'' ex_get ?c ex_world = (r, c', w')"
      by (cases "request ?E ''u'' ex_get ?c ex_world")
    have forbidden: "status (ex_api 403 ''Forbidden'' None) \<noteq> 401" by (simp add: ex_api_def)
    from request_retries_once_after_401[OF entry first run] forbidden
    have "r = settle (ex_api 403 ''Forbidden'' None)
       \<and> remoteCalls w' = remoteCalls ex_world + 1
       \<and> refreshExchanges w' = refreshExchanges ex_world"
      by blast
    then show ?thesis using run zero by simp
  qed
  have s200: "settle (ex_api 200 ''OK'' None) = Inr (ex_api 200 ''OK'' None)"
    by (simp add: settle_def ok_def ex_api_def)
  have m401: "status (ex_api 401 ''Unauthorized'' None) = 401"
    "js_toString (errorMessage (ex_api 401 ''Unauthorized'' None)) = Some ''Unauthorized''"
    by (simp_all add: ex_api_def errorMessage_def)
  have s403: "settle (ex_api 403 ''Forbidden'' None) = Inl (DriveApiError 403 ''Forbidden'')"
    by (simp add: settle_def ok_def ex_api_def errorMessage_def newDriveApiError_def)
  have again: "fst (request (ex_env_401_then (ex_api 401 ''Unauthorized'' None)) ''u'' ex_get ?c ex_world)
                 = Inl (DriveApiError 401 ''Unauthorized'')"
    using twice[of "ex_api 401 ''Unauthorized'' None"] m401 by blast
  from twice[of "ex_api 200 ''OK'' None"] twice[of "ex_api 401 ''Unauthorized'' None"]
    once s200 again s403
  show ?thesis by simp
qed

text \<open>The claim as stated, exactly one refresh exchange whenever the first answer is 401,
  fails on a pair that had expired at entry: the token is refreshed before the first request
  and again after the 401, so the 200 answer is returned after two remote calls and two
  refresh exchanges.\<close>

theorem request_two_refresh_exchanges_counterexample:
  "remoteApi (ex_env_401_then (ex_api 200 ''OK'' None))
      (calls ex_world @ [TokenFetch (refreshForm (ex_client ''AT1'' ''RT1'' 500))])
      ''u'' (withBearer ex_get ''AT2'')
     = Responded 7 (ex_api 401 ''Unauthorized'' None)
   \<and> fst (request (ex_env_401_then (ex_api 200 ''OK'' None)) ''u'' ex_get (ex_client ''AT1'' ''RT1'' 500) ex_world)
     = Inr (ex_api 200 ''OK'' None)
   \<and> remoteCalls (snd (snd (request (ex_env_401_then (ex_api 200 ''OK'' None)) ''u'' ex_get
        (ex_client ''AT1'' ''RT1'' 500) ex_world))) = 2
   \<and> refreshExchanges (snd (snd (request (ex_env_401_then (ex_api 200 ''OK'' None)) ''u'' ex_get
        (ex_client ''AT1'' ''RT1'' 500) ex_world))) = 2"
  by (simp add: ex_defs run_defs count_defs)

text \<open>A response that is not 2xx does not always end in a \<open>DriveApiError\<close>. On the body
  \<^verbatim>\<open>{"error": {"message": {"toString": 1}}}\<close> the message is an object that cannot be
  converted to a string, the constructor of line 111 throws, and \<open>request\<close> fails with
  \<open>TypeError\<close>: after a first answer that is not 401, and after a second answer 401.\<close>

lemma unconvertible_message_throws_TypeError:
  "js_toString (JObj [(''toString'', JNum 1)]) = None"
  "js_toString (JArr [JStr ''a'', JObj [(''toString'', JNum 1)]]) = None"
  "fst (request
          (ex_env_always (ex_api 404 ''Not Found''
             (Some (JObj [(''error'', JObj [(''message'', JObj [(''toString'', JNum 1)])])]))))
          ''u'' ex_get (ex_client ''AT1'' ''RT1'' 2000) ex_world)
     = Inl TypeError"
  "fst (request
          (ex_env_401_then (ex_api 401 ''Unauthorized''
             (Some (JObj [(''error'', JObj [(''message'', JObj [(''toString'', JNum 1)])])]))))
          ''u'' ex_get (ex_client ''AT1'' ''RT1'' 2000) ex_world)
     = Inl TypeError"
  by (simp_all add: ex_defs run_defs count_defs)

lemma errorMessage_cases:
  "bodyJson x = None \<Longrightarrow> errorMessage x = JStr (statusText x)"
  "bodyJson x = Some j \<Longrightarrow> optChain (optChain (Some j) ''error'') ''message'' = None \<Longrightarrow>
     errorMessage x = JStr (statusText x)"
  "bodyJson x = Some j \<Longrightarrow> optChain (optChain (Some j) ''error'') ''message'' = Some JNull \<Longrightarrow>
     errorMessage x = JStr (statusText x)"
  "bodyJson x = Some j \<Longrightarrow> optChain (optChain (Some j) ''error'') ''message'' = Some v \<Longrightarrow>
     v \<noteq> JNull \<Longrightarrow> errorMessage x = v"
  by (simp_all add: errorMessage_def split: json.splits)

lemma failure_of_message:
  assumes "r = settle fin" and "\<not> ok fin"
  shows "errorMessage fin = JStr s \<Longrightarrow> r = Inl (DriveApiError (status fin) s)"
    and "js_toString (errorMessage fin) = Some m \<Longrightarrow> r = Inl (DriveApiError (status fin) m)"
    and "\<exists>e. r = Inl e"
    and "r \<noteq> Inl SyntaxError"
  using assms by (simp_all add: settle_cases newDriveApiError_cases)

text \<open>
  \<^bold>\<open>C10\<close>, as amended. Let \<open>fin\<close> be the response that \<open>request\<close> settles: the first one
  when its status is not 401, the answer to the reissued request otherwise. When \<open>fin\<close> is
  not 2xx, \<open>request\<close> fails, and never with the failure of parsing the body. It fails with
  a \<open>DriveApiError\<close> of the status of \<open>fin\<close> whose message is the status text, when the body
  is not JSON, when the JSON has no \<open>error.message\<close>, and when \<open>error.message\<close> is \<open>null\<close>.
  It fails with a \<open>DriveApiError\<close> of the status of \<open>fin\<close> whose message is
  \<open>error.message\<close>, when that is a string; and whose message is the string conversion of
  \<open>error.message\<close>, when that is another value that is not \<open>null\<close> and converts to a string.
\<close>

theorem request_failure_carries_status_and_message:
  assumes "getAccessToken E False c w = (Inr tok, c1, w1)"
    and "remoteApi E (calls w1) url (withBearer options tok) = Responded dt res"
    and "request E url options c w = (r, c', w')"
    and "status res \<noteq> 401 \<and> fin = res
       \<or> status res = 401
         \<and> (\<exists>tok' c2 w3 dt'.
               getAccessToken E True c1 (tick dt (ApiFetch url (withBearer options tok)) w1)
                 = (Inr tok', c2, w3)
               \<and> remoteApi E (calls w3) url (withBearer options tok') = Responded dt' fin)"
    and "\<not> ok fin"
  shows "(\<exists>e. r = Inl e)
     \<and> r \<noteq> Inl SyntaxError
     \<and> (bodyJson fin = None \<longrightarrow> r = Inl (DriveApiError (status fin) (statusText fin)))
     \<and> (\<forall>j. bodyJson fin = Some j \<longrightarrow>
          (optChain (optChain (Some j) ''error'') ''message'' = None \<longrightarrow>
             r = Inl (DriveApiError (status fin) (statusText fin)))
          \<and> (optChain (optChain (Some j) ''error'') ''message'' = Some JNull \<longrightarrow>
             r = Inl (DriveApiError (status fin) (statusText fin)))
          \<and> (\<forall>s. optChain (optChain (Some j) ''error'') ''message'' = Some (JStr s) \<longrightarrow>
             r = Inl (DriveApiError (status fin) s))
          \<and> (\<forall>v m. optChain (optChain (Some j) ''error'') ''message'' = Some v \<and> v \<noteq> JNull
                   \<and> js_toString v = Some m \<longrightarrow>
             r = Inl (DriveApiError (status fin) m)))"
proof -
  have settled: "r = settle fin"
    using assms(4)
  proof (elim disjE conjE exE)
    assume "status res \<noteq> 401" "fin = res"
    then show ?thesis using request_settles_first[OF assms(1,2)] assms(3) by simp
  next
    fix tok' c2 w3 dt'
    assume "status res = 401"
      and "getAccessToken E True c1 (tick dt (ApiFetch url (withBearer options tok)) w1)
             = (Inr tok', c2, w3)"
      and "remoteApi E (calls w3) url (withBearer options tok') = Responded dt' fin"
    then show ?thesis using request_settles_second[OF assms(1,2)] assms(3) by simp
  qed
  note fails = failure_of_message[OF settled assms(5)]
  have A: "\<exists>e. r = Inl e" by (rule fails(3))
  have B: "r \<noteq> Inl SyntaxError" by (rule fails(4))
  have C: "bodyJson fin = None \<longrightarrow> r = Inl (DriveApiError (status fin) (statusText fin))"
    using fails(1) errorMessage_cases(1)[of fin] by blast
  have D: "optChain (optChain (Some j) ''error'') ''message'' = None \<longrightarrow>
             r = Inl (DriveApiError (status fin) (statusText fin))"
    if "bodyJson fin = Some j" for j
    using fails(1) errorMessage_cases(2)[OF that] by blast
  have F: "optChain (optChain (Some j) ''error'') ''message'' = Some JNull \<longrightarrow>
             r = Inl (DriveApiError (status fin) (statusText fin))"
    if "bodyJson fin = Some j" for j
    using fails(1) errorMessage_cases(3)[OF that] by blast
  have G: "\<forall>s. optChain (optChain (Some j) ''error'') ''message'' = Some (JStr s) \<longrightarrow>
             r = Inl (DriveApiError (status fin) s)"
    if "bodyJson fin = Some j" for j
    using fails(1) errorMessage_cases(4)[OF that] by blast
  have H: "\<forall>v m. optChain (optChain (Some j) ''error'') ''message'' = Some v \<and> v \<noteq> JNull
                   \<and> js_toString v = Some m \<longrightarrow>
             r = Inl (DriveApiError (status fin) m)"
    if "bodyJson fin = Some j" for j
  proof (intro allI impI, elim conjE)
    fix v m
    assume "optChain (optChain (Some j) ''error'') ''message'' = Some v" "v \<noteq> JNull"
      and conv: "js_toString v = Some m"
    then have "errorMessage fin = v" using errorMessage_cases(4)[OF that] by blast
    with conv show "r = Inl (DriveApiError (status fin) m)" using fails(2) by simp
  qed
  from A B C D F G H show ?thesis by blast
qed

text \<open>Three runs from a fresh pair: a 404 whose JSON body carries a message, a 502 whose
  body is not JSON, after a 401 and a forced refresh, and a 400 whose message is an array.\<close>

theorem request_failure_carries_status_and_message_witness:
  "fst (request
          (ex_env_always (ex_api 404 ''Not Found''
             (Some (JObj [(''error'', JObj [(''message'', JStr ''File not found: x'')])]))))
          ''u'' ex_get (ex_client ''AT1'' ''RT1'' 2000) ex_world)
     = Inl (DriveApiError 404 ''File not found: x'')
   \<and> fst (request (ex_env_401_then (ex_api 502 ''Bad Gateway'' None))
          ''u'' ex_get (ex_client ''AT1'' ''RT1'' 2000) ex_world)
     = Inl (DriveApiError 502 ''Bad Gateway'')
   \<and> fst (request
          (ex_env_always (ex_api 400 ''Bad Request''
             (Some (JObj [(''error'',
                JObj [(''message'', JArr [JStr ''a'', JNull, JBool True])])]))))
          ''u'' ex_get (ex_client ''AT1'' ''RT1'' 2000) ex_world)
     = Inl (DriveApiError 400 ''a,,true'')"
proof -
  let ?c = "ex_client ''AT1'' ''RT1'' 2000"
  let ?req1 = "ApiFetch ''u'' (withBearer ex_get ''AT1'')"
  let ?nf = "ex_api 404 ''Not Found''
               (Some (JObj [(''error'', JObj [(''message'', JStr ''File not found: x'')])]))"
  let ?bg = "ex_api 502 ''Bad Gateway'' None"
  let ?arr = "JArr [JStr ''a'', JNull, JBool True]"
  let ?br = "ex_api 400 ''Bad Request'' (Some (JObj [(''error'', JObj [(''message'', ?arr)])]))"
  have entry: "getAccessToken E False ?c ex_world = (Inr ''AT1'', ?c, ex_world)" for E
    by (simp add: getAccessToken_def ex_defs)
  have a: "fst (request (ex_env_always ?nf) ''u'' ex_get ?c ex_world)
             = Inl (DriveApiError 404 ''File not found: x'')"
  proof -
    let ?E = "ex_env_always ?nf"
    have first: "remoteApi ?E (calls ex_world) ''u'' (withBearer ex_get ''AT1'') = Responded 7 ?nf"
      by (simp add: ex_env_always_def ex_env_def)
    obtain r c' w' where run: "request ?E ''u'' ex_get ?c ex_world = (r, c', w')"
      by (cases "request ?E ''u'' ex_get ?c ex_world")
    have fin: "status ?nf \<noteq> 401 \<and> ?nf = ?nf \<or> status ?nf = 401 \<and>
        (\<exists>tok' c2 w3 dt'. getAccessToken ?E True ?c (tick 7 ?req1 ex_world) = (Inr tok', c2, w3)
           \<and> remoteApi ?E (calls w3) ''u'' (withBearer ex_get tok') = Responded dt' ?nf)"
      by (simp add: ex_api_def)
    have bad: "\<not> ok ?nf" by (simp add: ok_def ex_api_def)
    have body: "bodyJson ?nf = Some (JObj [(''error'', JObj [(''message'', JStr ''File not found: x'')])])"
      by (simp add: ex_api_def)
    have field: "optChain (optChain (Some (JObj [(''error'', JObj [(''message'', JStr ''File not found: x'')])])) ''error'') ''message''
                   = Some (JStr ''File not found: x'')"
      by simp
    from request_failure_carries_status_and_message[OF entry first run fin bad] body field
    have "r = Inl (DriveApiError (status ?nf) ''File not found: x'')"
      by blast
    then show ?thesis using run by (simp add: ex_api_def)
  qed
  have b: "fst (request (ex_env_401_then ?bg) ''u'' ex_get ?c ex_world)
             = Inl (DriveApiError 502 ''Bad Gateway'')"
  proof -
    let ?E = "ex_env_401_then ?bg"
    have first: "remoteApi ?E (calls ex_world) ''u'' (withBearer ex_get ''AT1'')
                   = Responded 7 (ex_api 401 ''Unauthorized'' None)"
      by (simp add: ex_env_401_then_def ex_env_def ex_world_def)
    obtain r c' w' where run: "request ?E ''u'' ex_get ?c ex_world = (r, c', w')"
      by (cases "request ?E ''u'' ex_get ?c ex_world")
    have rt: "refreshToken (config ?c) \<noteq> []" by (simp add: ex_defs)
    have ep: "tokenEndpoint ?E (calls (tick 7 ?req1 ex_world)) (refreshForm ?c)
                = Responded 5 (ex_token 200 [] (Some (ex_tokens None)))"
      by (simp add: ex_defs)
    have forced: "\<exists>c2. getAccessToken ?E True ?c (tick 7 ?req1 ex_world)
       = (Inr ''AT2'', c2, tick 5 (TokenFetch (refreshForm ?c)) (tick 7 ?req1 ex_world))"
      using refresh_success[of True ?c "tick 7 ?req1 ex_world" ?E 5
          "ex_token 200 [] (Some (ex_tokens None))" "ex_tokens None"] rt ep
      by (simp add: ok_def ex_token_def ex_tokens_def)
    have second: "remoteApi ?E (calls (tick 5 (TokenFetch (refreshForm ?c)) (tick 7 ?req1 ex_world)))
                    ''u'' (withBearer ex_get ''AT2'') = Responded 7 ?bg"
      by (simp add: ex_env_401_then_def ex_env_def ex_world_def count_defs)
    have fin: "status (ex_api 401 ''Unauthorized'' None) \<noteq> 401 \<and> ?bg = ex_api 401 ''Unauthorized'' None
       \<or> status (ex_api 401 ''Unauthorized'' None) = 401 \<and>
        (\<exists>tok' c2 w3 dt'. getAccessToken ?E True ?c (tick 7 ?req1 ex_world) = (Inr tok', c2, w3)
           \<and> remoteApi ?E (calls w3) ''u'' (withBearer ex_get tok') = Responded dt' ?bg)"
      using forced second by (auto simp: ex_api_def)
    have bad: "\<not> ok ?bg" by (simp add: ok_def ex_api_def)
    have body: "bodyJson ?bg = None" by (simp add: ex_api_def)
    from request_failure_carries_status_and_message[OF entry first run fin bad] body
    have "r = Inl (DriveApiError (status ?bg) (statusText ?bg))"
      by blast
    then show ?thesis using run by (simp add: ex_api_def)
  qed
  have d: "fst (request (ex_env_always ?br) ''u'' ex_get ?c ex_world)
             = Inl (DriveApiError 400 ''a,,true'')"
  proof -
    let ?E = "ex_env_always ?br"
    have first: "remoteApi ?E (calls ex_world) ''u'' (withBearer ex_get ''AT1'') = Responded 7 ?br"
      by (simp add: ex_env_always_def ex_env_def)
    obtain r c' w' where run: "request ?E ''u'' ex_get ?c ex_world = (r, c', w')"
      by (cases "request ?E ''u'' ex_get ?c ex_world")
    have fin: "status ?br \<noteq> 401 \<and> ?br = ?br \<or> status ?br = 401 \<and>
        (\<exists>tok' c2 w3 dt'. getAccessToken ?E True ?c (tick 7 ?req1 ex_world) = (Inr tok', c2, w3)
           \<and> remoteApi ?E (calls w3) ''u'' (withBearer ex_get tok') = Responded dt' ?br)"
      by (simp add: ex_api_def)
    have bad: "\<not> ok ?br" by (simp add: ok_def ex_api_def)
    have body: "bodyJson ?br = Some (JObj [(''error'', JObj [(''message'', ?arr)])])"
      by (simp add: ex_api_def)
    have field: "optChain (optChain (Some (JObj [(''error'', JObj [(''message'', ?arr)])])) ''error'') ''message''
                   = Some ?arr"
      "?arr \<noteq> JNull"
      by simp_all
    have conv: "js_toString ?arr = Some ''a,,true''"
      by simp
    from request_failure_carries_status_and_message[OF entry first run fin bad] body field conv
    have "r = Inl (DriveApiError (status ?br) ''a,,true'')"
      by blast
    then show ?thesis using run by (simp add: ex_api_def)
  qed
  from a b d show ?thesis by blast
qed

text \<open>The claim as stated, the message is \<open>error.message\<close> whenever the body is JSON and has
  that field, fails on the body \<^verbatim>\<open>{"error": {"message": null}}\<close>: the field is there, and
  the message of the failure is the status text.\<close>

theorem null_error_message_counterexample:
  "optChain (optChain (bodyJson (ex_api 500 ''Internal Server Error''
       (Some (JObj [(''error'', JObj [(''message'', JNull)])])))) ''error'') ''message''
     = Some JNull
   \<and> fst (request
          (ex_env_always (ex_api 500 ''Internal Server Error''
             (Some (JObj [(''error'', JObj [(''message'', JNull)])]))))
          ''u'' ex_get (ex_client ''AT1'' ''RT1'' 2000) ex_world)
     = Inl (DriveApiError 500 ''Internal Server Error'')"
  by (simp add: ex_defs run_defs)


section \<open>Properties of the authorization callback\<close>

lemmas hex_defs = ex_callback_def ex_user_def ex_henv_def ex_hworld_def ex_token_def ex_tokens_def

lemma exchangeCode_kv:
  "OAUTH_KV (snd (exchangeCode H rq code oauthReq hw)) = OAUTH_KV hw"
  by (simp add: exchangeCode_def Let_def after_fetch_def record_event_def
      split: outcome.split option.split list.split json.split)

lemma exchangeCode_trace:
  "\<exists>rest. trace (snd (exchangeCode H rq code oauthReq hw)) = trace hw @ rest"
  by (simp add: exchangeCode_def Let_def after_fetch_def record_event_def
      split: outcome.split option.split list.split json.split)

lemma handleCallback_absent:
  assumes "carries rq code s"
    and "OAUTH_KV hw (stateKeyOf s) = None"
  shows "handleCallback H rq hw =
           (Inr (Reply 400 ''Invalid or expired OAuth state''),
            record_event (KvGet (stateKeyOf s)) hw)"
  using assms
  by (cases s; cases code) (auto simp: carries_def handleCallback_def Let_def record_event_def)

lemma handleCallback_found:
  assumes "carries rq code s"
    and "OAUTH_KV hw (stateKeyOf s) = Some v" and "v \<noteq> []"
  shows "handleCallback H rq hw =
     (let hw2 = record_event (KvDelete (stateKeyOf s))
                  ((record_event (KvGet (stateKeyOf s)) hw)
                     \<lparr>OAUTH_KV := (OAUTH_KV hw)(stateKeyOf s := None)\<rparr>)
      in case JSON_parse H v of
           None \<Rightarrow> (Inl SyntaxError, hw2)
         | Some oauthReq \<Rightarrow> exchangeCode H rq code oauthReq hw2)"
  using assms
  by (cases s; cases code; cases v)
     (auto simp: carries_def handleCallback_def Let_def record_event_def)

lemma handleCallback_consumes:
  assumes "carries rq code s"
    and "OAUTH_KV hw (stateKeyOf s) = Some v" and "v \<noteq> []"
  shows "OAUTH_KV (snd (handleCallback H rq hw)) (stateKeyOf s) = None"
  using assms
  by (simp add: handleCallback_found Let_def exchangeCode_kv record_event_def split: option.split)

lemma handleCallback_trace:
  assumes "carries rq code s"
    and "OAUTH_KV hw (stateKeyOf s) = Some v" and "v \<noteq> []"
  shows "\<exists>rest. trace (snd (handleCallback H rq hw))
           = trace hw @ KvGet (stateKeyOf s) # KvDelete (stateKeyOf s) # rest"
proof (cases "JSON_parse H v")
  case None
  then show ?thesis
    using assms by (simp add: handleCallback_found Let_def record_event_def)
next
  case (Some oauthReq)
  let ?hw2 = "record_event (KvDelete (stateKeyOf s))
                ((record_event (KvGet (stateKeyOf s)) hw)
                   \<lparr>OAUTH_KV := (OAUTH_KV hw)(stateKeyOf s := None)\<rparr>)"
  obtain rest where "trace (snd (exchangeCode H rq code oauthReq ?hw2)) = trace ?hw2 @ rest"
    using exchangeCode_trace by blast
  then show ?thesis
    using assms Some by (simp add: handleCallback_found Let_def record_event_def)
qed

lemma handleCallback_absent_stays:
  assumes "OAUTH_KV hw k = None"
  shows "OAUTH_KV (snd (handleCallback H rq hw)) k = None"
  using assms
  by (auto simp: handleCallback_def Let_def exchangeCode_kv record_event_def
      split: option.split list.split)

lemma handleCallback_redirect:
  assumes "isRedirect (fst (handleCallback H rq hw))"
  shows "\<exists>s. map_of (searchParams rq) ''state'' = Some s
            \<and> OAUTH_KV hw (stateKeyOf s) \<noteq> None
            \<and> OAUTH_KV (snd (handleCallback H rq hw)) (stateKeyOf s) = None"
  using assms
  by (auto simp: handleCallback_def Let_def exchangeCode_kv record_event_def isRedirect_def
      split: option.splits list.splits)

lemma handleCallback_fails_closed:
  assumes "map_of (searchParams rq) ''state'' = Some s"
    and "OAUTH_KV hw (stateKeyOf s) = None"
  shows "\<not> isRedirect (fst (handleCallback H rq hw))"
    and "filter isTokenExchange (trace (snd (handleCallback H rq hw)))
           = filter isTokenExchange (trace hw)"
  using assms
  by (auto simp: handleCallback_def Let_def record_event_def isRedirect_def isTokenExchange_def
      split: option.splits list.splits)

lemma no_success_once_absent:
  "OAUTH_KV hw (stateKeyOf s) = None \<Longrightarrow>
     successesWith s rqs (fst (handleCallbacks H rqs hw)) = 0"
proof (induction rqs arbitrary: hw)
  case Nil
  then show ?case by (simp add: successesWith_def)
next
  case (Cons rq rqs)
  obtain r hw1 where h: "handleCallback H rq hw = (r, hw1)"
    by (cases "handleCallback H rq hw")
  obtain rs hw2 where t: "handleCallbacks H rqs hw1 = (rs, hw2)"
    by (cases "handleCallbacks H rqs hw1")
  have "OAUTH_KV hw1 (stateKeyOf s) = None"
    using handleCallback_absent_stays[OF Cons.prems, of H rq] h by simp
  then have rest: "successesWith s rqs rs = 0"
    using Cons.IH[of hw1] t by simp
  have "\<not> (map_of (searchParams rq) ''state'' = Some s \<and> isRedirect r)"
    using handleCallback_fails_closed(1)[of rq s hw H] Cons.prems h by auto
  then show ?case
    using rest h t by (auto simp: successesWith_def)
qed

lemma successes_at_most_one:
  "successesWith s rqs (fst (handleCallbacks H rqs hw)) \<le> 1"
proof (induction rqs arbitrary: hw)
  case Nil
  then show ?case by (simp add: successesWith_def)
next
  case (Cons rq rqs)
  obtain r hw1 where h: "handleCallback H rq hw = (r, hw1)"
    by (cases "handleCallback H rq hw")
  obtain rs hw2 where t: "handleCallbacks H rqs hw1 = (rs, hw2)"
    by (cases "handleCallbacks H rqs hw1")
  show ?case
  proof (cases "map_of (searchParams rq) ''state'' = Some s \<and> isRedirect r")
    case True
    then have "OAUTH_KV hw1 (stateKeyOf s) = None"
      using handleCallback_redirect[of H rq hw] h by auto
    then have "successesWith s rqs rs = 0"
      using no_success_once_absent[of hw1 s rqs H] t by simp
    then show ?thesis
      using h t True by (simp add: successesWith_def)
  next
    case False
    have "successesWith s rqs rs \<le> 1"
      using Cons.IH[of hw1] t by simp
    then show ?thesis
      using h t False by (auto simp: successesWith_def)
  qed
qed

text \<open>
  \<^bold>\<open>C6\<close>, as amended. For every state token \<open>s\<close>:
  \<^item> among any callbacks served one after the other, at most one that carries \<open>s\<close> ends in
    the final redirect;
  \<^item> a callback that carries a code and \<open>s\<close> (and no provider error) and finds \<open>s\<close> in the
    store deletes it, and after that every such callback with \<open>s\<close> is answered 400
    "Invalid or expired OAuth state" after the store lookup alone;
  \<^item> such a callback whose \<open>s\<close> is not in the store is answered the same way, the lookup
    being all it does;
  \<^item> whatever else a callback with an absent \<open>s\<close> carries, it is not redirected and no call
    to the token endpoint is made.
\<close>

theorem state_token_succeeds_at_most_once:
  "successesWith s rqs (fst (handleCallbacks H rqs hw)) \<le> 1
   \<and> (\<forall>rq code v. carries rq code s \<and> OAUTH_KV hw (stateKeyOf s) = Some v \<and> v \<noteq> [] \<longrightarrow>
        OAUTH_KV (snd (handleCallback H rq hw)) (stateKeyOf s) = None
        \<and> (\<forall>rq' code'. carries rq' code' s \<longrightarrow>
             handleCallback H rq' (snd (handleCallback H rq hw))
               = (Inr (Reply 400 ''Invalid or expired OAuth state''),
                  record_event (KvGet (stateKeyOf s)) (snd (handleCallback H rq hw)))))
   \<and> (\<forall>rq code. carries rq code s \<and> OAUTH_KV hw (stateKeyOf s) = None \<longrightarrow>
        handleCallback H rq hw
          = (Inr (Reply 400 ''Invalid or expired OAuth state''),
             record_event (KvGet (stateKeyOf s)) hw))
   \<and> (\<forall>rq. map_of (searchParams rq) ''state'' = Some s \<and> OAUTH_KV hw (stateKeyOf s) = None \<longrightarrow>
        \<not> isRedirect (fst (handleCallback H rq hw))
        \<and> filter isTokenExchange (trace (snd (handleCallback H rq hw)))
            = filter isTokenExchange (trace hw))"
proof -
  have second: "OAUTH_KV (snd (handleCallback H rq hw)) (stateKeyOf s) = None
        \<and> (\<forall>rq' code'. carries rq' code' s \<longrightarrow>
             handleCallback H rq' (snd (handleCallback H rq hw))
               = (Inr (Reply 400 ''Invalid or expired OAuth state''),
                  record_event (KvGet (stateKeyOf s)) (snd (handleCallback H rq hw))))"
    if "carries rq code s" "OAUTH_KV hw (stateKeyOf s) = Some v" "v \<noteq> []" for rq code v
    using handleCallback_consumes[OF that] handleCallback_absent by blast
  have A: "successesWith s rqs (fst (handleCallbacks H rqs hw)) \<le> 1"
    by (rule successes_at_most_one)
  have B: "\<forall>rq code v. carries rq code s \<and> OAUTH_KV hw (stateKeyOf s) = Some v \<and> v \<noteq> [] \<longrightarrow>
        OAUTH_KV (snd (handleCallback H rq hw)) (stateKeyOf s) = None
        \<and> (\<forall>rq' code'. carries rq' code' s \<longrightarrow>
             handleCallback H rq' (snd (handleCallback H rq hw))
               = (Inr (Reply 400 ''Invalid or expired OAuth state''),
                  record_event (KvGet (stateKeyOf s)) (snd (handleCallback H rq hw))))"
    using second by blast
  have C: "\<forall>rq code. carries rq code s \<and> OAUTH_KV hw (stateKeyOf s) = None \<longrightarrow>
        handleCallback H rq hw
          = (Inr (Reply 400 ''Invalid or expired OAuth state''),
             record_event (KvGet (stateKeyOf s)) hw)"
    using handleCallback_absent by blast
  have D: "\<forall>rq. map_of (searchParams rq) ''state'' = Some s \<and> OAUTH_KV hw (stateKeyOf s) = None \<longrightarrow>
        \<not> isRedirect (fst (handleCallback H rq hw))
        \<and> filter isTokenExchange (trace (snd (handleCallback H rq hw)))
            = filter isTokenExchange (trace hw)"
    using handleCallback_fails_closed by blast
  from A B C D show ?thesis by (intro conjI)
qed

lemmas hrun_defs =
  handleCallback_def exchangeCode_def exchangeForm_def stateKeyOf_def record_event_def
  after_fetch_def ok_def Let_def

text \<open>A handshake for the state \<open>s1\<close>, completed by the callback
  \<^verbatim>\<open>?code=abc123&state=s1\<close> and then replayed; and a callback whose state was never
  issued.\<close>

theorem state_token_succeeds_at_most_once_witness:
  "carries (ex_callback [(''code'', ''abc123''), (''state'', ''s1'')]) ''abc123'' ''s1''
   \<and> OAUTH_KV ex_hworld (stateKeyOf ''s1'') = Some ''{}''
   \<and> fst (handleCallback (ex_henv (ex_token 200 [] (Some (ex_tokens (Some ''RT1'')))) ex_user)
            (ex_callback [(''code'', ''abc123''), (''state'', ''s1'')]) ex_hworld)
       = Inr (Redirect ''https://client.example/done'' 302)
   \<and> fst (handleCallback (ex_henv (ex_token 200 [] (Some (ex_tokens (Some ''RT1'')))) ex_user)
            (ex_callback [(''code'', ''abc123''), (''state'', ''s1'')])
            (snd (handleCallback (ex_henv (ex_token 200 [] (Some (ex_tokens (Some ''RT1'')))) ex_user)
                    (ex_callback [(''code'', ''abc123''), (''state'', ''s1'')]) ex_hworld)))
       = Inr (Reply 400 ''Invalid or expired OAuth state'')
   \<and> successesWith ''s1''
        [ex_callback [(''code'', ''abc123''), (''state'', ''s1'')],
         ex_callback [(''code'', ''abc123''), (''state'', ''s1'')]]
        (fst (handleCallbacks (ex_henv (ex_token 200 [] (Some (ex_tokens (Some ''RT1'')))) ex_user)
                [ex_callback [(''code'', ''abc123''), (''state'', ''s1'')],
                 ex_callback [(''code'', ''abc123''), (''state'', ''s1'')]] ex_hworld)) \<le> 1
   \<and> handleCallback (ex_henv (ex_token 200 [] (Some (ex_tokens (Some ''RT1'')))) ex_user)
        (ex_callback [(''code'', ''abc123''), (''state'', ''s2'')]) ex_hworld
       = (Inr (Reply 400 ''Invalid or expired OAuth state''),
          record_event (KvGet (stateKeyOf ''s2'')) ex_hworld)"
proof -
  let ?H = "ex_henv (ex_token 200 [] (Some (ex_tokens (Some ''RT1'')))) ex_user"
  let ?cb = "ex_callback [(''code'', ''abc123''), (''state'', ''s1'')]"
  let ?cb2 = "ex_callback [(''code'', ''abc123''), (''state'', ''s2'')]"
  have c1: "carries ?cb ''abc123'' ''s1''" by (simp add: carries_def ex_callback_def)
  have c2: "carries ?cb2 ''abc123'' ''s2''" by (simp add: carries_def ex_callback_def)
  have k1: "OAUTH_KV ex_hworld (stateKeyOf ''s1'') = Some ''{}''" by (simp add: ex_hworld_def)
  have k2: "OAUTH_KV ex_hworld (stateKeyOf ''s2'') = None"
    by (simp add: ex_hworld_def stateKeyOf_def)
  have ne: "''{}'' \<noteq> []" by simp
  have first: "fst (handleCallback ?H ?cb ex_hworld)
                 = Inr (Redirect ''https://client.example/done'' 302)"
    by (simp add: hrun_defs hex_defs)
  note thm1 = state_token_succeeds_at_most_once[of "''s1''" "[?cb, ?cb]" ?H ex_hworld]
  from thm1 c1 k1 ne
  have replay: "handleCallback ?H ?cb (snd (handleCallback ?H ?cb ex_hworld))
                  = (Inr (Reply 400 ''Invalid or expired OAuth state''),
                     record_event (KvGet (stateKeyOf ''s1'')) (snd (handleCallback ?H ?cb ex_hworld)))"
    by blast
  from thm1 have count: "successesWith ''s1'' [?cb, ?cb] (fst (handleCallbacks ?H [?cb, ?cb] ex_hworld)) \<le> 1"
    by blast
  from state_token_succeeds_at_most_once[of "''s2''" "[]" ?H ex_hworld] c2 k2
  have absent: "handleCallback ?H ?cb2 ex_hworld
       = (Inr (Reply 400 ''Invalid or expired OAuth state''),
          record_event (KvGet (stateKeyOf ''s2'')) ex_hworld)"
    by blast
  from c1 k1 first replay count absent show ?thesis by simp
qed

text \<open>The claim as stated, for every call whose state is absent from the store, fails on a
  callback that also carries a provider error: it is turned away by the first check, with the
  provider's error and not with the one of an invalid state (the store is not even read).\<close>

theorem provider_error_with_absent_state_counterexample:
  "map_of (searchParams (ex_callback [(''error'', ''access_denied''), (''state'', ''s2'')])) ''state''
     = Some ''s2''
   \<and> OAUTH_KV ex_hworld (stateKeyOf ''s2'') = None
   \<and> handleCallback (ex_henv (ex_token 200 [] (Some (ex_tokens (Some ''RT1'')))) ex_user)
         (ex_callback [(''error'', ''access_denied''), (''state'', ''s2'')]) ex_hworld
       = (Inr (Reply 400 ''Google OAuth error: access_denied''), ex_hworld)"
  by (simp add: ex_callback_def ex_hworld_def stateKeyOf_def handleCallback_def)

text \<open>
  \<^bold>\<open>C9.\<close> A callback that carries a code and the state \<open>s\<close> (and no provider error) and
  finds \<open>s\<close> in the store looks the entry up and deletes it before anything else: whatever
  it records afterwards, the token exchange included, comes after the deletion. However
  the rest goes, the entry is gone when the callback is over, and the same callback
  served again is answered 400 "Invalid or expired OAuth state" after the lookup alone,
  with no second exchange. In particular this is so when the token endpoint answers the
  code exchange with a status that is not 2xx (the reply is 502 "Google token exchange
  failed: ...") and when the user-info fetch does (the reply is 502 "Failed to fetch Google
  user info").
\<close>

theorem state_is_deleted_before_the_exchange:
  assumes "carries rq code s"
    and "OAUTH_KV hw (stateKeyOf s) = Some v" and "v \<noteq> []"
    and "handleCallback H rq hw = (r, hw')"
  shows "(\<exists>rest. trace hw' = trace hw @ KvGet (stateKeyOf s) # KvDelete (stateKeyOf s) # rest)
     \<and> OAUTH_KV hw' (stateKeyOf s) = None
     \<and> handleCallback H rq hw'
         = (Inr (Reply 400 ''Invalid or expired OAuth state''),
            record_event (KvGet (stateKeyOf s)) hw')
     \<and> (\<forall>oauthReq dt res.
          JSON_parse H v = Some oauthReq
          \<and> tokenExchange H (trace hw @ [KvGet (stateKeyOf s), KvDelete (stateKeyOf s)])
              (exchangeForm H rq code) = Responded dt res
          \<and> \<not> ok res \<longrightarrow>
          r = Inr (Reply 502 (''Google token exchange failed: '' @ bodyText res)))
     \<and> (\<forall>oauthReq dt res tokens rt dt' ures.
          JSON_parse H v = Some oauthReq
          \<and> tokenExchange H (trace hw @ [KvGet (stateKeyOf s), KvDelete (stateKeyOf s)])
              (exchangeForm H rq code) = Responded dt res
          \<and> ok res \<and> bodyJson res = Some tokens
          \<and> refresh_token tokens = Some rt \<and> rt \<noteq> []
          \<and> userInfoEndpoint H
              (trace hw @ [KvGet (stateKeyOf s), KvDelete (stateKeyOf s),
                           TokenExchange (exchangeForm H rq code)])
              (access_token tokens) = Responded dt' ures
          \<and> \<not> ok ures \<longrightarrow>
          r = Inr (Reply 502 ''Failed to fetch Google user info''))"
proof -
  note found = assms(1-3)
  have T: "\<exists>rest. trace hw' = trace hw @ KvGet (stateKeyOf s) # KvDelete (stateKeyOf s) # rest"
    using handleCallback_trace[OF found, of H] assms(4) by simp
  have K: "OAUTH_KV hw' (stateKeyOf s) = None"
    using handleCallback_consumes[OF found, of H] assms(4) by simp
  have R: "handleCallback H rq hw'
         = (Inr (Reply 400 ''Invalid or expired OAuth state''),
            record_event (KvGet (stateKeyOf s)) hw')"
    by (rule handleCallback_absent[OF assms(1) K])
  have X: "r = Inr (Reply 502 (''Google token exchange failed: '' @ bodyText res))"
    if "JSON_parse H v = Some oauthReq"
      "tokenExchange H (trace hw @ [KvGet (stateKeyOf s), KvDelete (stateKeyOf s)])
              (exchangeForm H rq code) = Responded dt res"
      "\<not> ok res" for oauthReq dt res
    using that assms(4)
    by (simp add: handleCallback_found[OF found] exchangeCode_def Let_def record_event_def)
  have U: "r = Inr (Reply 502 ''Failed to fetch Google user info'')"
    if "JSON_parse H v = Some oauthReq"
      "tokenExchange H (trace hw @ [KvGet (stateKeyOf s), KvDelete (stateKeyOf s)])
              (exchangeForm H rq code) = Responded dt res"
      "ok res" "bodyJson res = Some tokens" "refresh_token tokens = Some rt" "rt \<noteq> []"
      "userInfoEndpoint H
              (trace hw @ [KvGet (stateKeyOf s), KvDelete (stateKeyOf s),
                           TokenExchange (exchangeForm H rq code)])
              (access_token tokens) = Responded dt' ures"
      "\<not> ok ures" for oauthReq dt res tokens rt dt' ures
    using that assms(4)
    by (cases rt)
       (simp_all add: handleCallback_found[OF found] exchangeCode_def Let_def record_event_def
          after_fetch_def)
  have X': "\<forall>oauthReq dt res.
          JSON_parse H v = Some oauthReq
          \<and> tokenExchange H (trace hw @ [KvGet (stateKeyOf s), KvDelete (stateKeyOf s)])
              (exchangeForm H rq code) = Responded dt res
          \<and> \<not> ok res \<longrightarrow>
          r = Inr (Reply 502 (''Google token exchange failed: '' @ bodyText res))"
    using X by blast
  have U': "\<forall>oauthReq dt res tokens rt dt' ures.
          JSON_parse H v = Some oauthReq
          \<and> tokenExchange H (trace hw @ [KvGet (stateKeyOf s), KvDelete (stateKeyOf s)])
              (exchangeForm H rq code) = Responded dt res
          \<and> ok res \<and> bodyJson res = Some tokens
          \<and> refresh_token tokens = Some rt \<and> rt \<noteq> []
          \<and> userInfoEndpoint H
              (trace hw @ [KvGet (stateKeyOf s), KvDelete (stateKeyOf s),
                           TokenExchange (exchangeForm H rq code)])
              (access_token tokens) = Responded dt' ures
          \<and> \<not> ok ures \<longrightarrow>
          r = Inr (Reply 502 ''Failed to fetch Google user info'')"
    using U by blast
  from T K R X' U' show ?thesis by (intro conjI)
qed

text \<open>The handshake for \<open>s1\<close> again, with a token endpoint that answers the code exchange
  with 500, and with a user-info endpoint that answers 503: the state is gone and the retry
  is turned away.\<close>

theorem state_is_deleted_before_the_exchange_witness:
  "carries (ex_callback [(''code'', ''abc123''), (''state'', ''s1'')]) ''abc123'' ''s1''
   \<and> OAUTH_KV ex_hworld (stateKeyOf ''s1'') = Some ''{}''
   \<and> fst (handleCallback (ex_henv (ex_token 500 ''boom'' None) ex_user)
            (ex_callback [(''code'', ''abc123''), (''state'', ''s1'')]) ex_hworld)
       = Inr (Reply 502 ''Google token exchange failed: boom'')
   \<and> OAUTH_KV (snd (handleCallback (ex_henv (ex_token 500 ''boom'' None) ex_user)
            (ex_callback [(''code'', ''abc123''), (''state'', ''s1'')]) ex_hworld))
        (stateKeyOf ''s1'') = None
   \<and> fst (handleCallback (ex_henv (ex_token 500 ''boom'' None) ex_user)
            (ex_callback [(''code'', ''abc123''), (''state'', ''s1'')])
            (snd (handleCallback (ex_henv (ex_token 500 ''boom'' None) ex_user)
                    (ex_callback [(''code'', ''abc123''), (''state'', ''s1'')]) ex_hworld)))
       = Inr (Reply 400 ''Invalid or expired OAuth state'')
   \<and> fst (handleCallback
            (ex_henv (ex_token 200 [] (Some (ex_tokens (Some ''RT1''))))
               (ex_user\<lparr>status := 503\<rparr>))
            (ex_callback [(''code'', ''abc123''), (''state'', ''s1'')]) ex_hworld)
       = Inr (Reply 502 ''Failed to fetch Google user info'')
   \<and> fst (handleCallback
            (ex_henv (ex_token 200 [] (Some (ex_tokens (Some ''RT1''))))
               (ex_user\<lparr>status := 503\<rparr>))
            (ex_callback [(''code'', ''abc123''), (''state'', ''s1'')])
            (snd (handleCallback
                    (ex_henv (ex_token 200 [] (Some (ex_tokens (Some ''RT1''))))
                       (ex_user\<lparr>status := 503\<rparr>))
                    (ex_callback [(''code'', ''abc123''), (''state'', ''s1'')]) ex_hworld)))
       = Inr (Reply 400 ''Invalid or expired OAuth state'')"
proof -
  let ?cb = "ex_callback [(''code'', ''abc123''), (''state'', ''s1'')]"
  let ?k = "stateKeyOf ''s1''"
  have c1: "carries ?cb ''abc123'' ''s1''" by (simp add: carries_def ex_callback_def)
  have k1: "OAUTH_KV ex_hworld ?k = Some ''{}''" by (simp add: ex_hworld_def)
  have ne: "''{}'' \<noteq> []" by simp
  have tr: "trace ex_hworld = []" by (simp add: ex_hworld_def)
  have a: "fst (handleCallback (ex_henv (ex_token 500 ''boom'' None) ex_user) ?cb ex_hworld)
             = Inr (Reply 502 ''Google token exchange failed: boom'')
     \<and> OAUTH_KV (snd (handleCallback (ex_henv (ex_token 500 ''boom'' None) ex_user) ?cb ex_hworld)) ?k
         = None
     \<and> fst (handleCallback (ex_henv (ex_token 500 ''boom'' None) ex_user) ?cb
              (snd (handleCallback (ex_henv (ex_token 500 ''boom'' None) ex_user) ?cb ex_hworld)))
         = Inr (Reply 400 ''Invalid or expired OAuth state'')"
  proof -
    let ?H = "ex_henv (ex_token 500 ''boom'' None) ex_user"
    obtain r hw' where run: "handleCallback ?H ?cb ex_hworld = (r, hw')"
      by (cases "handleCallback ?H ?cb ex_hworld")
    have p: "JSON_parse ?H ''{}'' = Some (JObj [])" by (simp add: ex_henv_def)
    have x: "tokenExchange ?H (trace ex_hworld @ [KvGet ?k, KvDelete ?k])
               (exchangeForm ?H ?cb ''abc123'') = Responded 3 (ex_token 500 ''boom'' None)"
      by (simp add: ex_henv_def)
    have bad: "\<not> ok (ex_token 500 ''boom'' None)" by (simp add: ok_def ex_token_def)
    from state_is_deleted_before_the_exchange[OF c1 k1 ne run] p x bad
    have "r = Inr (Reply 502 (''Google token exchange failed: '' @ bodyText (ex_token 500 ''boom'' None)))"
      "OAUTH_KV hw' ?k = None"
      "handleCallback ?H ?cb hw'
         = (Inr (Reply 400 ''Invalid or expired OAuth state''), record_event (KvGet ?k) hw')"
      by blast+
    then show ?thesis using run by (simp add: ex_token_def)
  qed
  have b: "fst (handleCallback
              (ex_henv (ex_token 200 [] (Some (ex_tokens (Some ''RT1'')))) (ex_user\<lparr>status := 503\<rparr>))
              ?cb ex_hworld)
             = Inr (Reply 502 ''Failed to fetch Google user info'')
     \<and> fst (handleCallback
              (ex_henv (ex_token 200 [] (Some (ex_tokens (Some ''RT1'')))) (ex_user\<lparr>status := 503\<rparr>))
              ?cb
              (snd (handleCallback
                      (ex_henv (ex_token 200 [] (Some (ex_tokens (Some ''RT1''))))
                         (ex_user\<lparr>status := 503\<rparr>))
                      ?cb ex_hworld)))
         = Inr (Reply 400 ''Invalid or expired OAuth state'')"
  proof -
    let ?t = "ex_token 200 [] (Some (ex_tokens (Some ''RT1'')))"
    let ?u = "ex_user\<lparr>status := 503\<rparr>"
    let ?H = "ex_henv ?t ?u"
    obtain r hw' where run: "handleCallback ?H ?cb ex_hworld = (r, hw')"
      by (cases "handleCallback ?H ?cb ex_hworld")
    have facts: "JSON_parse ?H ''{}'' = Some (JObj [])
       \<and> tokenExchange ?H (trace ex_hworld @ [KvGet ?k, KvDelete ?k])
               (exchangeForm ?H ?cb ''abc123'') = Responded 3 ?t
       \<and> ok ?t \<and> bodyJson ?t = Some (ex_tokens (Some ''RT1''))
       \<and> refresh_token (ex_tokens (Some ''RT1'')) = Some ''RT1'' \<and> ''RT1'' \<noteq> []
       \<and> userInfoEndpoint ?H
              (trace ex_hworld @ [KvGet ?k, KvDelete ?k,
                           TokenExchange (exchangeForm ?H ?cb ''abc123'')])
              (access_token (ex_tokens (Some ''RT1''))) = Responded 4 ?u
       \<and> \<not> ok ?u"
      by (simp add: ex_henv_def ex_token_def ex_tokens_def ex_user_def ok_def)
    from state_is_deleted_before_the_exchange[OF c1 k1 ne run]
    have u: "\<forall>oauthReq dt res tokens rt dt' ures.
          JSON_parse ?H ''{}'' = Some oauthReq
          \<and> tokenExchange ?H (trace ex_hworld @ [KvGet ?k, KvDelete ?k])
              (exchangeForm ?H ?cb ''abc123'') = Responded dt res
          \<and> ok res \<and> bodyJson res = Some tokens
          \<and> refresh_token tokens = Some rt \<and> rt \<noteq> []
          \<and> userInfoEndpoint ?H
              (trace ex_hworld @ [KvGet ?k, KvDelete ?k,
                           TokenExchange (exchangeForm ?H ?cb ''abc123'')])
              (access_token tokens) = Responded dt' ures
          \<and> \<not> ok ures \<longrightarrow>
          r = Inr (Reply 502 ''Failed to fetch Google user info'')"
      and retry: "handleCallback ?H ?cb hw'
         = (Inr (Reply 400 ''Invalid or expired OAuth state''), record_event (KvGet ?k) hw')"
      by blast+
    from u facts have "r = Inr (Reply 502 ''Failed to fetch Google user info'')" by blast
    then show ?thesis using run retry by simp
  qed
  from c1 k1 a b show ?thesis by simp
qed


section \<open>Properties of the multipart encoder\<close>

text \<open>What \<open>JSON_stringify\<close> writes holds no carriage return and does not start with two
  dashes, so the text of the first part cannot hold the delimiter.\<close>

lemma digits10_chars: "c \<in> set (digits10 n) \<Longrightarrow> 48 \<le> (of_char c :: nat) \<and> (of_char c :: nat) \<le> 57"
proof (induction n arbitrary: c rule: digits10.induct)
  case (1 n)
  show ?case
  proof (cases "n < 10")
    case True
    with "1.prems" have "c = char_of (48 + n)" by (subst (asm) digits10.simps) simp
    with True show ?thesis by (simp add: of_char_of)
  next
    case False
    with "1.prems" have "c \<in> set (digits10 (n div 10)) \<or> c = char_of (48 + n mod 10)"
      by (subst (asm) digits10.simps) auto
    then show ?thesis
    proof
      assume "c \<in> set (digits10 (n div 10))"
      with "1.IH"[OF False] show ?thesis by blast
    next
      assume "c = char_of (48 + n mod 10)"
      moreover have "n mod 10 < 10" by simp
      ultimately show ?thesis by (simp add: of_char_of)
    qed
  qed
qed

lemma digits10_nonempty: "digits10 n \<noteq> []"
  by (subst digits10.simps) simp

lemma hexDigit_code: "k < 16 \<Longrightarrow> 48 \<le> (of_char (hexDigit k) :: nat)"
  by (simp add: hexDigit_def of_char_of)

lemma not_CR: "13 \<noteq> (of_char c :: nat) \<Longrightarrow> c \<noteq> CHR 0x0D \<and> CHR 0x0D \<noteq> c"
  by auto

lemma hexDigit_not_CR: "k < 16 \<Longrightarrow> hexDigit k \<noteq> CHR 0x0D \<and> CHR 0x0D \<noteq> hexDigit k"
  using hexDigit_code[of k] by (intro not_CR) simp

lemma escapeChar_no_CR: "CHR 0x0D \<notin> set (escapeChar ch)"
proof (cases "(of_char ch :: nat) < 32")
  case True
  then have "(of_char ch :: nat) div 16 < 16" "(of_char ch :: nat) mod 16 < 16" by simp_all
  with True show ?thesis
    by (simp add: escapeChar_def Let_def hexDigit_not_CR)
next
  case False
  then have "ch \<noteq> CHR 0x0D \<and> CHR 0x0D \<noteq> ch" by (intro not_CR) simp
  with False show ?thesis
    by (simp add: escapeChar_def Let_def)
qed

lemma quoteJSON_no_CR: "CHR 0x0D \<notin> set (quoteJSON s)"
  by (simp add: quoteJSON_def escapeChar_no_CR)

lemma in_set_join: "c \<in> set (join sep xs) \<Longrightarrow> c \<in> set sep \<or> (\<exists>x\<in>set xs. c \<in> set x)"
  by (induction sep xs rule: join.induct) auto

lemma showInt_chars: "c \<in> set (showInt i) \<Longrightarrow> c = CHR ''-'' \<or> 48 \<le> (of_char c :: nat)"
  using digits10_chars by (auto simp: showInt_def split: if_splits)

lemma showInt_no_CR: "CHR 0x0D \<notin> set (showInt i)"
  using showInt_chars[of "CHR 0x0D" i] by auto

lemma JSON_stringify_no_CR: "CHR 0x0D \<notin> set (JSON_stringify j)"
proof (induction j)
  case (JArr xs)
  show ?case
  proof
    assume "CHR 0x0D \<in> set (JSON_stringify (JArr xs))"
    then have "CHR 0x0D \<in> set (join '','' (map JSON_stringify xs))" by simp
    from in_set_join[OF this] obtain x where "x \<in> set xs" "CHR 0x0D \<in> set (JSON_stringify x)"
      by auto
    with JArr show False by blast
  qed
next
  case (JObj kvs)
  show ?case
  proof
    assume "CHR 0x0D \<in> set (JSON_stringify (JObj kvs))"
    then have "CHR 0x0D \<in> set (join '',''
        (map (\<lambda>kv. quoteJSON (fst kv) @ '':'' @ JSON_stringify (snd kv)) kvs))" by simp
    from in_set_join[OF this] obtain kv where kv: "kv \<in> set kvs"
      "CHR 0x0D \<in> set (quoteJSON (fst kv) @ '':'' @ JSON_stringify (snd kv))"
      by auto
    then have "CHR 0x0D \<in> set (JSON_stringify (snd kv))"
      using quoteJSON_no_CR[of "fst kv"] by auto
    moreover have "snd kv \<in> Basic_BNFs.snds kv" by (cases kv) simp
    ultimately show False using JObj[OF kv(1)] by blast
  qed
qed (simp_all add: showInt_no_CR quoteJSON_no_CR)

lemma JSON_stringify_no_dashes: "\<not> prefix ''--'' (JSON_stringify j)"
proof (cases j)
  case (JNum i)
  obtain d ds where d: "digits10 (nat \<bar>i\<bar>) = d # ds"
    using digits10_nonempty[of "nat \<bar>i\<bar>"] by (cases "digits10 (nat \<bar>i\<bar>)") auto
  then have "48 \<le> (of_char d :: nat)" using digits10_chars[of d "nat \<bar>i\<bar>"] by simp
  then have "d \<noteq> CHR ''-''" by auto
  with d JNum show ?thesis
    by (cases "i < 0") (auto simp: showInt_def abs_if)
qed (simp_all add: quoteJSON_def)

lemma breakOn_here: "d \<noteq> [] \<Longrightarrow> breakOn d (d @ ys) = Some ([], ys)"
  by (cases d) simp_all

lemma breakOn_no_head:
  "d \<noteq> [] \<Longrightarrow> hd d \<notin> set xs \<Longrightarrow> breakOn d (xs @ d @ ys) = Some (xs, ys)"
proof (induction xs)
  case Nil
  then show ?case by (simp add: breakOn_here)
next
  case (Cons x xs)
  then have "\<not> prefix d (x # xs @ d @ ys)" by (cases d) auto
  with Cons show ?case by simp
qed

lemma breakOn_first:
  assumes "c \<notin> set d'" and "\<not> str_includes xs (c # d')"
  shows "breakOn (c # d') (xs @ (c # d') @ ys) = Some (xs, ys)"
  using assms(2)
proof (induction xs)
  case Nil
  show ?case using breakOn_here[of "c # d'" ys] by simp
next
  case (Cons x xs)
  then have np: "\<not> prefix (c # d') (x # xs)" and ni: "\<not> str_includes xs (c # d')" by simp_all
  have "\<not> prefix (c # d') ((x # xs) @ (c # d') @ ys)"
  proof
    assume "prefix (c # d') ((x # xs) @ (c # d') @ ys)"
    then obtain us where us: "c # d' = (x # xs) @ us" "prefix us ((c # d') @ ys)"
      using np by (auto simp: prefix_append)
    from us(1) np have "us \<noteq> []" by auto
    then obtain u us' where "us = u # us'" by (cases us) auto
    with us(2) have "u = c" by simp
    with \<open>us = u # us'\<close> us(1) have "c \<in> set d'" by auto
    with assms(1) show False by simp
  qed
  with Cons.IH[OF ni] show ?case by simp
qed

lemma str_includes_set: "str_includes xs d \<Longrightarrow> set d \<subseteq> set xs"
proof (induction xs)
  case Nil
  then show ?case by simp
next
  case (Cons x xs)
  from Cons.prems have "prefix d (x # xs) \<or> str_includes xs d" by simp
  then show ?case
  proof
    assume "prefix d (x # xs)"
    then show ?thesis by (rule set_mono_prefix)
  next
    assume "str_includes xs d"
    with Cons.IH show ?thesis by auto
  qed
qed

lemma str_includes_skip:
  "d \<noteq> [] \<Longrightarrow> hd d \<notin> set a \<Longrightarrow> str_includes (a @ r) d = str_includes r d"
proof (induction a)
  case Nil
  then show ?case by simp
next
  case (Cons x a)
  then have "\<not> prefix d (x # a @ r)" by (cases d) auto
  with Cons show ?case by simp
qed

lemma buildMultipart_body:
  "body (buildMultipart metadata content ctype) =
     (''-------gdrive-mcp-boundary'' @ CRLF)
     @ (''Content-Type: application/json; charset=UTF-8'' @ CRLF @ CRLF @ JSON_stringify metadata)
     @ (CRLF @ ''-------gdrive-mcp-boundary'')
     @ CRLF
     @ (''Content-Type: '' @ ctype @ CRLF @ CRLF @ content)
     @ (CRLF @ ''-------gdrive-mcp-boundary'')
     @ ''--''"
  by (simp add: buildMultipart_def Let_def)

lemma buildMultipart_boundary:
  "declaredBoundary (contentType (buildMultipart metadata content ctype))
     = Some ''-----gdrive-mcp-boundary''"
  by (simp add: buildMultipart_def Let_def declaredBoundary_def)

lemma part1_clean:
  "\<not> str_includes
       (''Content-Type: application/json; charset=UTF-8'' @ CRLF @ CRLF @ JSON_stringify metadata)
       (CRLF @ ''-------gdrive-mcp-boundary'')"
proof -
  let ?M = "JSON_stringify metadata"
  let ?delim = "CRLF @ ''-------gdrive-mcp-boundary''"
  have skip: "str_includes (''Content-Type: application/json; charset=UTF-8'' @ (CRLF @ CRLF @ ?M)) ?delim
        = str_includes (CRLF @ CRLF @ ?M) ?delim"
    by (rule str_includes_skip) (simp_all add: CRLF_def)
  have "\<not> prefix ''-------gdrive-mcp-boundary'' ?M"
    using JSON_stringify_no_dashes[of metadata] by (auto simp: prefix_def)
  moreover have "\<not> str_includes ?M ?delim"
    using str_includes_set[of ?M ?delim] JSON_stringify_no_CR[of metadata]
    by (auto simp: CRLF_def)
  ultimately have "\<not> str_includes (CRLF @ CRLF @ ?M) ?delim"
    by (simp add: CRLF_def)
  with skip show ?thesis by simp
qed

lemma part2_clean:
  assumes "CHR 0x0D \<notin> set ctype"
    and "\<not> str_includes (CRLF @ content) (CRLF @ ''-------gdrive-mcp-boundary'')"
  shows "\<not> str_includes (''Content-Type: '' @ ctype @ CRLF @ CRLF @ content)
           (CRLF @ ''-------gdrive-mcp-boundary'')"
proof -
  let ?delim = "CRLF @ ''-------gdrive-mcp-boundary''"
  have skip: "str_includes ((''Content-Type: '' @ ctype) @ (CRLF @ CRLF @ content)) ?delim
        = str_includes (CRLF @ CRLF @ content) ?delim"
    by (rule str_includes_skip) (use assms(1) in \<open>simp_all add: CRLF_def\<close>)
  have "\<not> str_includes (CRLF @ CRLF @ content) ?delim"
    using assms(2) by (simp add: CRLF_def)
  with skip show ?thesis by simp
qed

lemma decode_buildMultipart:
  assumes "CHR 0x0D \<notin> set ctype"
    and "\<not> str_includes (CRLF @ content) (CRLF @ ''-------gdrive-mcp-boundary'')"
  shows "decodeMultipart_spec (buildMultipart metadata content ctype)
           = Some ((''Content-Type: application/json; charset=UTF-8'', JSON_stringify metadata),
                   (''Content-Type: '' @ ctype, content))"
proof -
  let ?dash = "''-------gdrive-mcp-boundary''"
  let ?delim = "CRLF @ ?dash"
  let ?h1 = "''Content-Type: application/json; charset=UTF-8''"
  let ?M = "JSON_stringify metadata"
  let ?p1 = "?h1 @ CRLF @ CRLF @ ?M"
  let ?h2 = "''Content-Type: '' @ ctype"
  let ?p2 = "?h2 @ CRLF @ CRLF @ content"
  let ?mp = "buildMultipart metadata content ctype"
  have delim: "?delim = CHR 0x0D # (CHR 0x0A # ?dash)" "CHR 0x0D \<notin> set (CHR 0x0A # ?dash)"
    by (simp_all add: CRLF_def)
  have b: "body ?mp = (?dash @ CRLF) @ ?p1 @ ?delim @ (CRLF @ ?p2 @ ?delim @ ''--'')"
    by (simp add: buildMultipart_body)
  have s0: "prefix (?dash @ CRLF) (body ?mp)" unfolding b by simp
  have s1: "drop (length (?dash @ CRLF)) (body ?mp) = ?p1 @ ?delim @ (CRLF @ ?p2 @ ?delim @ ''--'')"
    unfolding b by simp
  have s2: "breakOn ?delim (?p1 @ ?delim @ (CRLF @ ?p2 @ ?delim @ ''--''))
              = Some (?p1, CRLF @ ?p2 @ ?delim @ ''--'')"
    unfolding delim(1)
    by (rule breakOn_first[OF delim(2)]) (use part1_clean[of metadata] delim(1) in simp)
  have s3: "drop (length CRLF) (CRLF @ ?p2 @ ?delim @ ''--'') = ?p2 @ ?delim @ ''--''" by simp
  have s4: "breakOn ?delim (?p2 @ ?delim @ ''--'') = Some (?p2, ''--'')"
    unfolding delim(1)
    by (rule breakOn_first[OF delim(2)]) (use part2_clean[OF assms] delim(1) in simp)
  have s5: "breakOn (CRLF @ CRLF) (?h1 @ (CRLF @ CRLF) @ ?M) = Some (?h1, ?M)"
    by (rule breakOn_no_head) (simp_all add: CRLF_def)
  have s6: "breakOn (CRLF @ CRLF) (?h2 @ (CRLF @ CRLF) @ content) = Some (?h2, content)"
    by (rule breakOn_no_head) (use assms(1) in \<open>simp_all add: CRLF_def\<close>)
  show ?thesis
    unfolding decodeMultipart_spec_def buildMultipart_boundary
    using s0 s1 s2 s3 s4 s5 s6
    by (simp add: Let_def del: breakOn.simps)
qed

text \<open>The reader of JSON gives back every value that \<open>JSON_stringify\<close> writes.\<close>

lemma digits10_value:
  "foldl (\<lambda>a ch. 10 * a + ((of_char ch :: nat) - 48)) 0 (digits10 n) = n"
proof (induction n rule: digits10.induct)
  case (1 n)
  show ?case
  proof (cases "n < 10")
    case True
    then show ?thesis by (subst digits10.simps) (simp add: of_char_of)
  next
    case False
    have "n mod 10 < 10" by simp
    then have "(of_char (char_of (48 + n mod 10) :: char) :: nat) - 48 = n mod 10"
      by (simp add: of_char_of)
    with False "1.IH" show ?thesis by (subst digits10.simps) simp
  qed
qed

lemma takeWhile_digits:
  assumes "okRest rest"
  shows "takeWhile isDigit (digits10 n @ rest) = digits10 n"
    and "dropWhile isDigit (digits10 n @ rest) = rest"
proof -
  have all: "\<forall>c\<in>set (digits10 n). isDigit c"
    using digits10_chars by (auto simp: isDigit_def)
  have "takeWhile isDigit rest = []" "dropWhile isDigit rest = rest"
    using assms by (cases rest; simp add: okRest_def)+
  with all show "takeWhile isDigit (digits10 n @ rest) = digits10 n"
    and "dropWhile isDigit (digits10 n @ rest) = rest"
    by simp_all
qed

lemma readNat_digits10:
  "okRest rest \<Longrightarrow> readNat (digits10 n @ rest) = Some (n, rest)"
  by (simp add: readNat_def takeWhile_digits digits10_nonempty digits10_value)

lemma readNumber_showInt:
  assumes "okRest rest"
  shows "readNumber (showInt i @ rest) = Some (JNum i, rest)"
proof (cases "i < 0")
  case True
  then show ?thesis
    using readNat_digits10[OF assms, of "nat (- i)"]
    by (simp add: readNumber_def showInt_def)
next
  case False
  obtain d ds where d: "digits10 (nat i) = d # ds"
    using digits10_nonempty[of "nat i"] by (cases "digits10 (nat i)") auto
  then have "48 \<le> (of_char d :: nat)" using digits10_chars[of d "nat i"] by simp
  then have "d \<noteq> CHR ''-''" by auto
  with False d show ?thesis
    using readNat_digits10[OF assms, of "nat i"]
    by (simp add: readNumber_def showInt_def)
qed

lemma char_code_eq: "(of_char ch :: nat) = of_char c \<Longrightarrow> ch = c"
  by simp

lemma hexVal_hexDigit: "k < 16 \<Longrightarrow> hexVal (hexDigit k) = Some k"
  by (simp add: hexVal_def hexDigit_def Let_def of_char_of)

lemma readString_escapeChar:
  "readString (escapeChar ch @ t) = map_option (\<lambda>p. (ch # fst p, snd p)) (readString t)"
proof -
  let ?n = "of_char ch :: nat"
  consider (b) "?n = 8" | (t) "?n = 9" | (n) "?n = 10" | (f) "?n = 12" | (r) "?n = 13"
    | (q) "?n = 34" | (bs) "?n = 92"
    | (ctl) "?n < 32" "?n \<noteq> 8" "?n \<noteq> 9" "?n \<noteq> 10" "?n \<noteq> 12" "?n \<noteq> 13"
    | (plain) "\<not> ?n < 32" "?n \<noteq> 34" "?n \<noteq> 92"
    by linarith
  then show ?thesis
  proof cases
    case b
    then have "ch = CHR 0x08" by (intro char_code_eq) simp
    then show ?thesis by (simp add: escapeChar_def unescape_def)
  next
    case t
    then have "ch = CHR 0x09" by (intro char_code_eq) simp
    then show ?thesis by (simp add: escapeChar_def unescape_def)
  next
    case n
    then have "ch = CHR 0x0A" by (intro char_code_eq) simp
    then show ?thesis by (simp add: escapeChar_def unescape_def)
  next
    case f
    then have "ch = CHR 0x0C" by (intro char_code_eq) simp
    then show ?thesis by (simp add: escapeChar_def unescape_def)
  next
    case r
    then have "ch = CHR 0x0D" by (intro char_code_eq) simp
    then show ?thesis by (simp add: escapeChar_def unescape_def)
  next
    case q
    then have "ch = CHR 0x22" by (intro char_code_eq) simp
    then show ?thesis by (simp add: escapeChar_def unescape_def)
  next
    case bs
    then have "ch = CHR 0x5C" by (intro char_code_eq) simp
    then show ?thesis by (simp add: escapeChar_def unescape_def)
  next
    case ctl
    have h: "hexVal (hexDigit (?n div 16)) = Some (?n div 16)"
      "hexVal (hexDigit (?n mod 16)) = Some (?n mod 16)"
      using ctl(1) by (simp_all add: hexVal_hexDigit)
    have z: "hexVal CHR ''0'' = Some 0" by (simp add: hexVal_def)
    have again: "char_of (16 * (?n div 16) + ?n mod 16) = ch" by simp
    have esc: "escapeChar ch
                 = [CHR 0x5C, CHR ''u'', CHR ''0'', CHR ''0'',
                    hexDigit (?n div 16), hexDigit (?n mod 16)]"
      using ctl by (simp add: escapeChar_def Let_def)
    show ?thesis
      unfolding esc using h z again by simp
  next
    case plain
    then have "ch \<noteq> CHR 0x22" "ch \<noteq> CHR 0x5C" by auto
    moreover have "escapeChar ch = [ch]"
      using plain by (simp add: escapeChar_def Let_def)
    ultimately show ?thesis by simp
  qed
qed

lemma readString_escaped:
  "readString (concat (map escapeChar s) @ CHR 0x22 # rest) = Some (s, rest)"
proof (induction s)
  case Nil
  show ?case by simp
next
  case (Cons ch s)
  have "readString (concat (map escapeChar (ch # s)) @ CHR 0x22 # rest)
          = readString (escapeChar ch @ (concat (map escapeChar s) @ CHR 0x22 # rest))"
    by simp
  also have "\<dots> = map_option (\<lambda>p. (ch # fst p, snd p))
                     (readString (concat (map escapeChar s) @ CHR 0x22 # rest))"
    by (rule readString_escapeChar)
  finally show ?case using Cons.IH by simp
qed

lemma readString_quoteJSON:
  "quoteJSON s @ rest = CHR 0x22 # concat (map escapeChar s) @ CHR 0x22 # rest"
  by (simp add: quoteJSON_def)

lemma okRest_simps [simp]:
  "okRest []" "okRest (CHR '','' # r)" "okRest (CHR '']'' # r)" "okRest (CHR ''}'' # r)"
  by (simp_all add: okRest_def isDigit_def)

lemma showInt_head:
  "\<exists>c cs. showInt i = c # cs \<and> (c = CHR ''-'' \<or> isDigit c)"
proof -
  obtain d ds where d: "digits10 (nat \<bar>i\<bar>) = d # ds"
    using digits10_nonempty[of "nat \<bar>i\<bar>"] by (cases "digits10 (nat \<bar>i\<bar>)") auto
  then have "isDigit d" using digits10_chars[of d "nat \<bar>i\<bar>"] by (simp add: isDigit_def)
  with d show ?thesis by (cases "i < 0") (auto simp: showInt_def abs_if)
qed

lemma stringify_head:
  "\<exists>c cs. JSON_stringify j = c # cs \<and> c \<noteq> CHR '']''"
proof (cases j)
  case (JNum i)
  obtain c cs where "showInt i = c # cs" "c = CHR ''-'' \<or> isDigit c"
    using showInt_head by blast
  then show ?thesis using JNum by (auto simp: isDigit_def)
qed (simp_all add: quoteJSON_def)

lemma join_head:
  "xs \<noteq> [] \<Longrightarrow> \<exists>t. join sep xs = hd xs @ t"
  by (induction sep xs rule: join.induct) auto

lemma readElems_join:
  assumes "\<And>x f rest. x \<in> set xs \<Longrightarrow> length (JSON_stringify x) \<le> f \<Longrightarrow> okRest rest \<Longrightarrow>
             readValue f (JSON_stringify x @ rest) = Some (x, rest)"
    and "xs \<noteq> []"
    and "length (join '','' (map JSON_stringify xs)) < f"
  shows "readElems f (join '','' (map JSON_stringify xs) @ CHR '']'' # rest) = Some (xs, rest)"
  using assms
proof (induction xs arbitrary: f)
  case Nil
  then show ?case by simp
next
  case (Cons x xs)
  obtain f' where f: "f = Suc f'" using Cons.prems(3) by (cases f) auto
  show ?case
  proof (cases xs)
    case Nil
    have "readValue f' (JSON_stringify x @ CHR '']'' # rest) = Some (x, CHR '']'' # rest)"
      using Cons.prems(3) Nil f by (intro Cons.prems(1)) simp_all
    then show ?thesis using Nil f by simp
  next
    case (Cons y ys)
    have len: "length (JSON_stringify x) \<le> f'"
      "length (join '','' (map JSON_stringify xs)) < f'"
      using Cons.prems(3) Cons f by simp_all
    have "readValue f' (JSON_stringify x @ CHR '','' # join '','' (map JSON_stringify xs) @ CHR '']'' # rest)
            = Some (x, CHR '','' # join '','' (map JSON_stringify xs) @ CHR '']'' # rest)"
      using len(1) by (intro Cons.prems(1)) simp_all
    moreover have "readElems f' (join '','' (map JSON_stringify xs) @ CHR '']'' # rest) = Some (xs, rest)"
      using Cons.prems(1) Cons len(2) by (intro Cons.IH) simp_all
    ultimately show ?thesis using Cons f by simp
  qed
qed

lemma readMembers_join:
  assumes "\<And>k v f rest. (k, v) \<in> set kvs \<Longrightarrow> length (JSON_stringify v) \<le> f \<Longrightarrow> okRest rest \<Longrightarrow>
             readValue f (JSON_stringify v @ rest) = Some (v, rest)"
    and "kvs \<noteq> []"
    and "length (join '','' (map (\<lambda>kv. quoteJSON (fst kv) @ '':'' @ JSON_stringify (snd kv)) kvs)) < f"
  shows "readMembers f (join '','' (map (\<lambda>kv. quoteJSON (fst kv) @ '':'' @ JSON_stringify (snd kv)) kvs)
                          @ CHR ''}'' # rest) = Some (kvs, rest)"
  using assms
proof (induction kvs arbitrary: f)
  case Nil
  then show ?case by simp
next
  case (Cons kv kvs)
  obtain k v where kv: "kv = (k, v)" by (cases kv)
  obtain f' where f: "f = Suc f'" using Cons.prems(3) by (cases f) auto
  let ?M = "\<lambda>kv. quoteJSON (fst kv) @ '':'' @ JSON_stringify (snd kv)"
  have key: "readString (concat (map escapeChar k) @ CHR 0x22 # (CHR '':'' # t)) = Some (k, CHR '':'' # t)" for t
    by (rule readString_escaped)
  show ?case
  proof (cases kvs)
    case Nil
    have "readValue f' (JSON_stringify v @ CHR ''}'' # rest) = Some (v, CHR ''}'' # rest)"
      using Cons.prems(3) Nil f kv by (intro Cons.prems(1)[of k v]) simp_all
    then show ?thesis using Nil f kv key by (simp add: quoteJSON_def)
  next
    case (Cons kv' kvs')
    have len: "length (JSON_stringify v) \<le> f'"
      "length (join '','' (map ?M kvs)) < f'"
      using Cons.prems(3) Cons f kv by simp_all
    have "readValue f' (JSON_stringify v @ CHR '','' # join '','' (map ?M kvs) @ CHR ''}'' # rest)
            = Some (v, CHR '','' # join '','' (map ?M kvs) @ CHR ''}'' # rest)"
      using len(1) kv by (intro Cons.prems(1)[of k v]) simp_all
    moreover have "readMembers f' (join '','' (map ?M kvs) @ CHR ''}'' # rest) = Some (kvs, rest)"
    proof (rule Cons.IH)
      show "readValue f (JSON_stringify v @ rest) = Some (v, rest)"
        if "(k, v) \<in> set kvs" "length (JSON_stringify v) \<le> f" "okRest rest" for k v f rest
        using Cons.prems(1)[of k v f rest] that by simp
      show "kvs \<noteq> []" using Cons by simp
      show "length (join '','' (map ?M kvs)) < f'" by (rule len(2))
    qed
    ultimately show ?thesis using Cons f kv key by (simp add: quoteJSON_def)
  qed
qed

lemma readValue_stringify:
  "length (JSON_stringify j) \<le> f \<Longrightarrow> okRest rest \<Longrightarrow>
     readValue f (JSON_stringify j @ rest) = Some (j, rest)"
proof (induction j arbitrary: f rest)
  case JNull
  then show ?case by (cases f) simp_all
next
  case (JBool b)
  then show ?case by (cases f; cases b) simp_all
next
  case (JNum i)
  obtain c cs where h: "showInt i = c # cs" "c = CHR ''-'' \<or> isDigit c"
    using showInt_head by blast
  obtain f' where f: "f = Suc f'" using JNum.prems(1) h(1) by (cases f) auto
  have "c \<noteq> CHR ''n''" "c \<noteq> CHR ''t''" "c \<noteq> CHR ''f''" "c \<noteq> CHR 0x22" "c \<noteq> CHR ''[''"
    "c \<noteq> CHR ''{''"
    using h(2) by (auto simp: isDigit_def)
  moreover have "readNumber (c # cs @ rest) = Some (JNum i, rest)"
    using readNumber_showInt[OF JNum.prems(2), of i] h(1) by simp
  ultimately show ?case using f h(1) by simp
next
  case (JStr s)
  obtain f' where f: "f = Suc f'" using JStr.prems(1) by (cases f) (auto simp: quoteJSON_def)
  show ?case using f readString_escaped[of s rest] by (simp add: quoteJSON_def)
next
  case (JArr xs)
  obtain f' where f: "f = Suc f'" using JArr.prems(1) by (cases f) auto
  show ?case
  proof (cases "xs = []")
    case True
    then show ?thesis using f by simp
  next
    case False
    let ?body = "join '','' (map JSON_stringify xs)"
    obtain t where "?body = JSON_stringify (hd xs) @ t"
      using join_head[of "map JSON_stringify xs" "'',''"] False by (auto simp: hd_map)
    moreover obtain c cs where "JSON_stringify (hd xs) = c # cs" "c \<noteq> CHR '']''"
      using stringify_head by blast
    ultimately have nb: "\<not> prefix '']'' (?body @ CHR '']'' # rest)" by simp
    have "length ?body < f'" using JArr.prems(1) f by simp
    then have "readElems f' (?body @ CHR '']'' # rest) = Some (xs, rest)"
      using JArr.IH False by (intro readElems_join) simp_all
    then show ?thesis using f nb by simp
  qed
next
  case (JObj kvs)
  obtain f' where f: "f = Suc f'" using JObj.prems(1) by (cases f) auto
  let ?M = "\<lambda>kv. quoteJSON (fst kv) @ '':'' @ JSON_stringify (snd kv)"
  show ?case
  proof (cases "kvs = []")
    case True
    then show ?thesis using f by simp
  next
    case False
    let ?body = "join '','' (map ?M kvs)"
    obtain t where "?body = ?M (hd kvs) @ t"
      using join_head[of "map ?M kvs" "'',''"] False by (auto simp: hd_map)
    then have nb: "\<not> prefix ''}'' (?body @ CHR ''}'' # rest)" by (simp add: quoteJSON_def)
    have IH: "readValue f (JSON_stringify v @ rest) = Some (v, rest)"
      if "(k, v) \<in> set kvs" "length (JSON_stringify v) \<le> f" "okRest rest" for k v f rest
      using JObj.IH[of "(k, v)" v f rest] that by simp
    have "length ?body < f'" using JObj.prems(1) f by simp
    then have "readMembers f' (?body @ CHR ''}'' # rest) = Some (kvs, rest)"
      using IH False by (intro readMembers_join) simp_all
    then show ?thesis using f nb by simp
  qed
qed

lemma JSON_parse_stringify: "JSON_parse_spec (JSON_stringify j) = Some j"
  using readValue_stringify[of j "Suc (length (JSON_stringify j))" "[]"]
  by (simp add: JSON_parse_spec_def)

text \<open>
  \<^bold>\<open>C5\<close>, as amended. The content-type header returned by \<open>buildMultipart\<close> declares the
  boundary \<^verbatim>\<open>-----gdrive-mcp-boundary\<close>, and the body is, joined by CRLF: the line
  \<^verbatim>\<open>--boundary\<close>, the header \<^verbatim>\<open>Content-Type: application/json; charset=UTF-8\<close>, an empty
  line, the JSON text of the metadata, the line \<^verbatim>\<open>--boundary\<close>, the header
  \<^verbatim>\<open>Content-Type:\<close> with the caller's content type, an empty line, the content, and the
  line \<^verbatim>\<open>--boundary--\<close>. When the content type holds no carriage return and no line of
  the content starts with \<^verbatim>\<open>--boundary\<close>, reading the body back gives the two headers, the
  JSON text of the metadata and the content, each exactly; reading the JSON text gives back
  the metadata object.
\<close>

theorem multipart_round_trip:
  "declaredBoundary (contentType (buildMultipart metadata content ctype))
     = Some ''-----gdrive-mcp-boundary''
   \<and> body (buildMultipart metadata content ctype)
       = ''-------gdrive-mcp-boundary'' @ CRLF
         @ ''Content-Type: application/json; charset=UTF-8'' @ CRLF @ CRLF
         @ JSON_stringify metadata @ CRLF
         @ ''-------gdrive-mcp-boundary'' @ CRLF
         @ ''Content-Type: '' @ ctype @ CRLF @ CRLF
         @ content @ CRLF
         @ ''-------gdrive-mcp-boundary--''
   \<and> (CHR 0x0D \<notin> set ctype
        \<and> \<not> str_includes (CRLF @ content) (CRLF @ ''-------gdrive-mcp-boundary'') \<longrightarrow>
        decodeMultipart_spec (buildMultipart metadata content ctype)
          = Some ((''Content-Type: application/json; charset=UTF-8'', JSON_stringify metadata),
                  (''Content-Type: '' @ ctype, content))
        \<and> decodeMetadata_spec (buildMultipart metadata content ctype) = Some metadata
        \<and> decodeContent_spec (buildMultipart metadata content ctype) = Some content)"
proof -
  have A: "declaredBoundary (contentType (buildMultipart metadata content ctype))
     = Some ''-----gdrive-mcp-boundary''"
    by (rule buildMultipart_boundary)
  have B: "body (buildMultipart metadata content ctype)
       = ''-------gdrive-mcp-boundary'' @ CRLF
         @ ''Content-Type: application/json; charset=UTF-8'' @ CRLF @ CRLF
         @ JSON_stringify metadata @ CRLF
         @ ''-------gdrive-mcp-boundary'' @ CRLF
         @ ''Content-Type: '' @ ctype @ CRLF @ CRLF
         @ content @ CRLF
         @ ''-------gdrive-mcp-boundary--''"
    by (simp add: buildMultipart_body)
  have C: "decodeMultipart_spec (buildMultipart metadata content ctype)
          = Some ((''Content-Type: application/json; charset=UTF-8'', JSON_stringify metadata),
                  (''Content-Type: '' @ ctype, content))
        \<and> decodeMetadata_spec (buildMultipart metadata content ctype) = Some metadata
        \<and> decodeContent_spec (buildMultipart metadata content ctype) = Some content"
    if "CHR 0x0D \<notin> set ctype"
      "\<not> str_includes (CRLF @ content) (CRLF @ ''-------gdrive-mcp-boundary'')"
    using decode_buildMultipart[OF that, of metadata]
    by (simp add: decodeMetadata_spec_def decodeContent_spec_def JSON_parse_stringify)
  from A B C show ?thesis by blast
qed

text \<open>The example of the specification: metadata \<^verbatim>\<open>{"name":"a"}\<close>, content \<^verbatim>\<open>hello\<close>,
  content type \<^verbatim>\<open>text/plain\<close>.\<close>

theorem multipart_round_trip_witness:
  "CHR 0x0D \<notin> set ''text/plain''
   \<and> \<not> str_includes (CRLF @ ''hello'') (CRLF @ ''-------gdrive-mcp-boundary'')
   \<and> decodeMultipart_spec (buildMultipart ex_metadata ''hello'' ''text/plain'')
       = Some ((''Content-Type: application/json; charset=UTF-8'',
                [CHR ''{'', CHR 0x22, CHR ''n'', CHR ''a'', CHR ''m'', CHR ''e'', CHR 0x22,
                 CHR '':'', CHR 0x22, CHR ''a'', CHR 0x22, CHR ''}'']),
               (''Content-Type: text/plain'', ''hello''))
   \<and> decodeMetadata_spec (buildMultipart ex_metadata ''hello'' ''text/plain'')
       = Some (JObj [(''name'', JStr ''a'')])
   \<and> decodeContent_spec (buildMultipart ex_metadata ''hello'' ''text/plain'') = Some ''hello''"
proof -
  have h1: "CHR 0x0D \<notin> set ''text/plain''" by simp
  have h2: "\<not> str_includes (CRLF @ ''hello'') (CRLF @ ''-------gdrive-mcp-boundary'')"
    by (simp add: CRLF_def)
  have serialised: "JSON_stringify ex_metadata
               = [CHR ''{'', CHR 0x22, CHR ''n'', CHR ''a'', CHR ''m'', CHR ''e'', CHR 0x22,
                  CHR '':'', CHR 0x22, CHR ''a'', CHR 0x22, CHR ''}'']"
    by (simp add: ex_metadata_def quoteJSON_def escapeChar_def)
  from multipart_round_trip[of ex_metadata "''hello''" "''text/plain''"] h1 h2
  have "decodeMultipart_spec (buildMultipart ex_metadata ''hello'' ''text/plain'')
          = Some ((''Content-Type: application/json; charset=UTF-8'', JSON_stringify ex_metadata),
                  (''Content-Type: '' @ ''text/plain'', ''hello''))"
    "decodeMetadata_spec (buildMultipart ex_metadata ''hello'' ''text/plain'') = Some ex_metadata"
    "decodeContent_spec (buildMultipart ex_metadata ''hello'' ''text/plain'') = Some ''hello''"
    by blast+
  then show ?thesis using h1 h2 serialised by (simp add: ex_metadata_def)
qed

text \<open>The claim as stated, for every content string, fails on a content that holds a line
  starting with the boundary: the body is cut there, and what is read back as the second
  part is only the text before it.\<close>

theorem boundary_in_content_counterexample:
  "decodeContent_spec
     (buildMultipart ex_metadata (''x'' @ CRLF @ ''-------gdrive-mcp-boundary--'') ''text/plain'')
     = Some ''x''
   \<and> ''x'' \<noteq> ''x'' @ CRLF @ ''-------gdrive-mcp-boundary--''"
  by (simp add: decodeContent_spec_def decodeMultipart_spec_def buildMultipart_def
      declaredBoundary_def ex_metadata_def quoteJSON_def escapeChar_def CRLF_def Let_def)

text \<open>The condition on the content type is needed as well, whatever the reader: a content type
  that holds an empty line cannot be told from the content, since two different contents
  then give the same body.\<close>

lemma blank_line_in_content_type_collides:
  "body (buildMultipart ex_metadata (''b'' @ CRLF @ CRLF @ ''c'') ''a'')
     = body (buildMultipart ex_metadata ''c'' (''a'' @ CRLF @ CRLF @ ''b''))
   \<and> ''b'' @ CRLF @ CRLF @ ''c'' \<noteq> ''c''"
  by (simp add: buildMultipart_def Let_def CRLF_def)


end
